theory Spec2Isabelle
  imports Main "HOL-Library.Multiset" "HOL-Library.AList"
begin

section \<open>Data model\<close>

text \<open>
  \<^verbatim>\<open>ImporterOutputFieldType = string | number | boolean | undefined\<close>: the
  declared type of a cell and of the result of a transformer. Numbers that occur in the
  properties below are only compared for equality, so they are modelled as integers.
\<close>

datatype field = FieldStr string | FieldNum int | FieldBool bool | FieldUndefined

text \<open>
  What reading a property of a row yields at run time: a value of the declared type, or,
  when the name is not an own key of the row but the name of a property every object
  inherits, the object that \<open>Object.prototype\<close> holds under that name
  (\<open>Inherited ''toString''\<close> is the function \<open>Object.prototype.toString\<close>, and
  \<open>Inherited ''__proto__''\<close> is \<open>Object.prototype\<close> itself, which the accessor
  \<open>__proto__\<close> returns).
\<close>

datatype cell = Str string | Num int | Bool bool | Undefined | Inherited string


text \<open>The string-keyed properties of \<open>Object.prototype\<close> (ECMAScript with Annex B).\<close>

definition objectPrototypeKeys :: "string list" where
  "objectPrototypeKeys =
     [''constructor'', ''hasOwnProperty'', ''isPrototypeOf'', ''propertyIsEnumerable'',
      ''toLocaleString'', ''toString'', ''valueOf'', ''__proto__'', ''__defineGetter__'',
      ''__defineSetter__'', ''__lookupGetter__'', ''__lookupSetter__'']"

text \<open>
  A row is an ordinary JavaScript object (an object literal or a spread copy of one, so
  its prototype is \<open>Object.prototype\<close>) used as a record from column id to cell. Its
  own properties are kept as an association list in insertion order.
  \<^item> \<open>k in row\<close> holds for an own key and for the name of an inherited property.
  \<^item> \<open>row[k]\<close> is the own value, else the inherited object, else \<open>undefined\<close>.
  \<^item> \<open>row[k] = v\<close> overwrites the own property in place or appends a new one. The one
    exception is \<open>k = '__proto__'\<close> when the row does not own that key: the assignment
    then runs the inherited setter, which ignores a value that is not an object and, given
    \<open>Object.prototype\<close>, keeps the prototype the row already has; no own property is
    created. The values the modelled code assigns are the value just read under the same
    key or the result of a transformer, which is of the declared type, so no other object
    is ever assigned there.
\<close>

type_synonym row = "(string \<times> cell) list"

definition inRow :: "string \<Rightarrow> row \<Rightarrow> bool" where
  "inRow k r = (map_of r k \<noteq> None \<or> k \<in> set objectPrototypeKeys)"

definition getCell :: "row \<Rightarrow> string \<Rightarrow> cell" where
  "getCell r k =
     (case map_of r k of
        Some v \<Rightarrow> v
      | None \<Rightarrow> if k \<in> set objectPrototypeKeys then Inherited k else Undefined)"


text \<open>
  The settled state of an awaited computation: a promise either rejects (also the model
  of a synchronous throw inside an \<open>async\<close> function) or resolves to a value.
\<close>

datatype 'a promise = Rejected | Resolved 'a

text \<open>
  A validator definition is a tagged record: the tag \<open>validate\<close>, the allowed values of an
  \<open>includes\<close> validator, and the optional conditional-applicability predicate \<open>when\<close>
  of a \<open>required\<close> validator.
\<close>

record validator_def =
  vd_validate :: string
  vd_values :: "cell list option"
  vd_when :: "(row \<Rightarrow> bool) option"

text \<open>
  A validator at run time: \<open>isValid(value, row)\<close> settles to no message
  (\<open>null\<close>/\<open>undefined\<close>) or to a failure message, or it fails.
\<close>

type_synonym validator = "cell \<Rightarrow> row \<Rightarrow> string option promise"

text \<open>
  A transformer definition is a tag with an optional custom function; a transformer at
  run time is a total function from the value it is given to a value of the declared
  type.
\<close>

type_synonym transformer = "cell \<Rightarrow> field"

record transformer_def =
  td_transformer :: string
  td_transformFn :: "transformer option"

record enum_option =
  eo_label :: string
  eo_value :: cell

record reference_arguments =
  ra_sheetId :: string
  ra_sheetColumnId :: string

text \<open>The declared type of a column together with its \<open>typeArguments\<close>.\<close>

datatype column_type =
    TString
  | TNumber
  | TBoolean
  | TEnum "enum_option list"
  | TReference reference_arguments
  | TOther string

record column_def =
  cd_id :: string
  cd_type :: column_type
  cd_validators :: "validator_def list option"
  cd_transformers :: "transformer_def list option"

record sheet_def =
  sd_id :: string
  sd_columns :: "column_def list"

record sheet_state =
  ss_sheetId :: string
  ss_rows :: "row list"

record validation_error =
  ve_sheetId :: string
  ve_columnId :: string
  ve_rowIndex :: nat
  ve_message :: string

text \<open>
  The collaborators of the engine that live in other modules: \<open>hasData\<close> and
  \<open>isEmptyCell\<close> (utils), \<open>buildValidatorFromDefinition\<close> (validator registry),
  \<open>extractReferenceColumnPossibleValues\<close> (sheet utils) and
  \<open>buildTransformerFromDefinition\<close> (transformer registry). The engine is modelled
  for arbitrary collaborators.
\<close>

record deps =
  hasData :: "row \<Rightarrow> bool"
  isEmptyCell :: "cell \<Rightarrow> bool"
  buildValidatorFromDefinition :: "validator_def \<Rightarrow> validator"
  extractReferenceColumnPossibleValues :: "column_def \<Rightarrow> sheet_state list \<Rightarrow> cell list"
  buildTransformerFromDefinition :: "transformer_def \<Rightarrow> transformer"

section \<open>Validator construction\<close>

text \<open>
  \<open>fieldIsRequired(columnDefinition, { skipConditionCheck })\<close>; the option is absent
  (\<open>None\<close>) when the second argument or its field is omitted. \<open>Array.find\<close> yields the
  first element that satisfies the predicate.
\<close>

definition fieldIsRequired :: "column_def \<Rightarrow> bool option \<Rightarrow> bool" where
  "fieldIsRequired columnDefinition skipConditionCheck =
     (case cd_validators columnDefinition of
        None \<Rightarrow> False
      | Some validators \<Rightarrow>
          if length validators > 0 then
            (case find (\<lambda>v. vd_validate v = ''required'') validators of
               None \<Rightarrow> False
             | Some isRequired \<Rightarrow>
                 (if skipConditionCheck = Some True then True
                  else vd_when isRequired = None))
          else False)"


text \<open>
  \<open>automaticFieldValidators(columnDefinition, allData)\<close>: two independent tests on the
  declared type, each pushing one \<open>includes\<close> definition.
\<close>

definition automaticFieldValidators ::
  "deps \<Rightarrow> column_def \<Rightarrow> sheet_state list \<Rightarrow> validator_def list" where
  "automaticFieldValidators d columnDefinition allData =
     (case cd_type columnDefinition of
        TEnum vals \<Rightarrow>
          [\<lparr>vd_validate = ''includes'', vd_values = Some (map eo_value vals), vd_when = None\<rparr>]
      | _ \<Rightarrow> [])
     @
     (case cd_type columnDefinition of
        TReference _ \<Rightarrow>
          [\<lparr>vd_validate = ''includes'',
            vd_values = Some (extractReferenceColumnPossibleValues d columnDefinition allData),
            vd_when = None\<rparr>]
      | _ \<Rightarrow> [])"

text \<open>The explicit validator definitions of a column, \<open>columnDefinition.validators ?? []\<close>.\<close>

definition explicitValidators :: "column_def \<Rightarrow> validator_def list" where
  "explicitValidators columnDefinition =
     (case cd_validators columnDefinition of None \<Rightarrow> [] | Some vs \<Rightarrow> vs)"

section \<open>Validation engine\<close>

text \<open>
  Modelled from the spec: \<open>eachWithObject\<close> (utils) is not among the sources. The
  validator lists and pipelines are built once per column, and the call sites fix the
  shape of the helper: it hands every element of the list, in order, together with one
  initially empty object to the callback and returns that object. The callback used by
  the engine assigns \<open>obj[columnDefinition.id]\<close> afresh, so a later column with the same
  id replaces the entry of an earlier one. The object is only read under ids the callback
  has assigned, so it is a table from ids to the value assigned last (for the id
  \<open>__proto__\<close> the assigned array or pipeline lands in the prototype slot, where the
  later read under the same name finds it).
\<close>

definition eachWithObject :: "'a list \<Rightarrow> ('a \<Rightarrow> (string \<rightharpoonup> 'b) \<Rightarrow> (string \<rightharpoonup> 'b)) \<Rightarrow> (string \<rightharpoonup> 'b)" where
  "eachWithObject xs fn = foldl (\<lambda>obj x. fn x obj) Map.empty xs"

definition validatorsByColumnId ::
  "deps \<Rightarrow> sheet_def \<Rightarrow> sheet_state list \<Rightarrow> (string \<rightharpoonup> validator list)" where
  "validatorsByColumnId d sheetDefinition allData =
     eachWithObject (sd_columns sheetDefinition)
       (\<lambda>columnDefinition obj.
          obj(cd_id columnDefinition \<mapsto>
            map (buildValidatorFromDefinition d)
              (explicitValidators columnDefinition
               @ automaticFieldValidators d columnDefinition allData)))"

text \<open>
  One launched validator evaluation: the cell it belongs to and how the promise
  \<open>Promise.resolve(v.isValid(value, row))\<close> settles.
\<close>

record evaluation =
  ev_columnId :: string
  ev_rowIndex :: nat
  ev_result :: "string option promise"

text \<open>
  The body of the two nested \<open>forEach\<close> loops of \<open>validateSheet\<close> for one column and one
  row: the evaluations it launches, in launch order. A column id without an entry in
  \<open>validatorsByColumnId\<close> would make \<open>validators.forEach\<close> throw, which rejects the
  surrounding \<open>async\<close> function.
\<close>

definition launchCell ::
  "deps \<Rightarrow> (string \<rightharpoonup> validator list) \<Rightarrow> column_def \<Rightarrow> nat \<times> row \<Rightarrow> evaluation list" where
  "launchCell d byColumnId columnDefinition ir =
     (case ir of (rowIndex, row) \<Rightarrow>
        if \<not> hasData d row then []
        else if \<not> inRow (cd_id columnDefinition) row
                \<and> \<not> fieldIsRequired columnDefinition (Some True) then []
        else
          (let value = getCell row (cd_id columnDefinition) in
           case byColumnId (cd_id columnDefinition) of
             None \<Rightarrow>
               [\<lparr>ev_columnId = cd_id columnDefinition, ev_rowIndex = rowIndex,
                 ev_result = Rejected\<rparr>]
           | Some validators \<Rightarrow>
               map (\<lambda>v. \<lparr>ev_columnId = cd_id columnDefinition, ev_rowIndex = rowIndex,
                          ev_result = v value row\<rparr>) validators))"

text \<open>The same body in \<open>validateSpecificRows\<close>, which first tests the dirty set.\<close>

definition launchSpecificCell ::
  "deps \<Rightarrow> (string \<rightharpoonup> validator list) \<Rightarrow> nat list \<Rightarrow> column_def \<Rightarrow> nat \<times> row
     \<Rightarrow> evaluation list" where
  "launchSpecificCell d byColumnId rowIndices columnDefinition ir =
     (case ir of (rowIndex, row) \<Rightarrow>
        if \<not> (rowIndex \<in> set rowIndices) then []
        else if \<not> hasData d row then []
        else if \<not> inRow (cd_id columnDefinition) row
                \<and> \<not> fieldIsRequired columnDefinition (Some True) then []
        else
          (let value = getCell row (cd_id columnDefinition) in
           case byColumnId (cd_id columnDefinition) of
             None \<Rightarrow>
               [\<lparr>ev_columnId = cd_id columnDefinition, ev_rowIndex = rowIndex,
                 ev_result = Rejected\<rparr>]
           | Some validators \<Rightarrow>
               map (\<lambda>v. \<lparr>ev_columnId = cd_id columnDefinition, ev_rowIndex = rowIndex,
                          ev_result = v value row\<rparr>) validators))"

text \<open>
  The \<open>then\<close> callback of one evaluation: a message that is not \<open>null\<close> pushes one
  \<open>ImporterValidationError\<close>.
\<close>

definition pushError :: "string \<Rightarrow> evaluation \<Rightarrow> validation_error list" where
  "pushError sheetId e =
     (case ev_result e of
        Resolved (Some result) \<Rightarrow>
          [\<lparr>ve_sheetId = sheetId, ve_columnId = ev_columnId e,
            ve_rowIndex = ev_rowIndex e, ve_message = result\<rparr>]
      | _ \<Rightarrow> [])"

text \<open>
  \<open>await Promise.all(validationPromises); return validationErrors\<close>. The join rejects
  when some evaluation rejects. Otherwise the callbacks have pushed their errors in the
  order in which the evaluations resolved; that order is the parameter
  \<open>resolutionOrder\<close>, which rearranges the launched evaluations.
\<close>

type_synonym resolution_order = "evaluation list \<Rightarrow> evaluation list"

definition joinEvaluations ::
  "resolution_order \<Rightarrow> string \<Rightarrow> evaluation list \<Rightarrow> validation_error list promise" where
  "joinEvaluations resolutionOrder sheetId validationPromises =
     (if list_ex (\<lambda>e. ev_result e = Rejected) validationPromises then Rejected
      else Resolved (concat (map (pushError sheetId) (resolutionOrder validationPromises))))"

definition validateSheet ::
  "resolution_order \<Rightarrow> deps \<Rightarrow> sheet_def \<Rightarrow> sheet_state \<Rightarrow> sheet_state list
     \<Rightarrow> validation_error list promise" where
  "validateSheet resolutionOrder d sheetDefinition sheetData allData =
     (let byColumnId = validatorsByColumnId d sheetDefinition allData;
          validationPromises =
            concat (map (\<lambda>columnDefinition.
                      concat (map (launchCell d byColumnId columnDefinition)
                                (enumerate 0 (ss_rows sheetData))))
                    (sd_columns sheetDefinition))
      in joinEvaluations resolutionOrder (sd_id sheetDefinition) validationPromises)"

definition validateSpecificRows ::
  "resolution_order \<Rightarrow> deps \<Rightarrow> sheet_def \<Rightarrow> sheet_state \<Rightarrow> sheet_state list \<Rightarrow> nat list
     \<Rightarrow> validation_error list promise" where
  "validateSpecificRows resolutionOrder d sheetDefinition sheetData allData rowIndices =
     (let byColumnId = validatorsByColumnId d sheetDefinition allData;
          validationPromises =
            concat (map (\<lambda>columnDefinition.
                      concat (map (launchSpecificCell d byColumnId rowIndices columnDefinition)
                                (enumerate 0 (ss_rows sheetData))))
                    (sd_columns sheetDefinition))
      in joinEvaluations resolutionOrder (sd_id sheetDefinition) validationPromises)"

text \<open>\<open>Promise.all\<close>: rejects when one of the promises rejects, else keeps their order.\<close>

fun promiseAll :: "'a promise list \<Rightarrow> 'a list promise" where
  "promiseAll [] = Resolved []"
| "promiseAll (Rejected # ps) = Rejected"
| "promiseAll (Resolved x # ps) =
     (case promiseAll ps of Rejected \<Rightarrow> Rejected | Resolved xs \<Rightarrow> Resolved (x # xs))"

definition applyValidations ::
  "resolution_order \<Rightarrow> deps \<Rightarrow> sheet_def list \<Rightarrow> sheet_state list
     \<Rightarrow> validation_error list promise" where
  "applyValidations resolutionOrder d sheetDefinitions sheetStates =
     (let promises =
            map (\<lambda>sheetDefinition.
                   case find (\<lambda>state. ss_sheetId state = sd_id sheetDefinition) sheetStates of
                     Some sheetData \<Rightarrow>
                       validateSheet resolutionOrder d sheetDefinition sheetData sheetStates
                   | None \<Rightarrow> Resolved [])
                sheetDefinitions
      in case promiseAll promises of
           Rejected \<Rightarrow> Rejected
         | Resolved allErrors \<Rightarrow> Resolved (concat allErrors))"

text \<open>
  The dirty rows are a \<open>Map<string, Set<number>>\<close>: an insertion-ordered list of entries,
  \<open>get\<close> being the lookup of the key and \<open>forEach\<close> the traversal of the entries; a set
  of row indices is the list of its elements.
\<close>

type_synonym dirty_rows = "(string \<times> nat list) list"

text \<open>The decimal numeral that a template literal prints for a row index.\<close>

definition digitChar :: "nat \<Rightarrow> char" where
  "digitChar n = ''0123456789'' ! (n mod 10)"

fun numberToString :: "nat \<Rightarrow> string" where
  "numberToString n =
     (if n < 10 then [digitChar n] else numberToString (n div 10) @ [digitChar (n mod 10)])"

declare numberToString.simps [simp del]

text \<open>The key \<^verbatim>\<open>`${sheetId}-${rowIndex}`\<close>.\<close>

definition rowKey :: "string \<Rightarrow> nat \<Rightarrow> string" where
  "rowKey sheetId rowIndex = sheetId @ ''-'' @ numberToString rowIndex"

text \<open>
  The first half of \<open>applyValidationsToSpecificRows\<close>, up to
  \<open>const newErrors = await Promise.all(promises)\<close>.
\<close>

definition newErrorsOfSpecificRows ::
  "resolution_order \<Rightarrow> deps \<Rightarrow> sheet_def list \<Rightarrow> sheet_state list \<Rightarrow> dirty_rows
     \<Rightarrow> validation_error list list promise" where
  "newErrorsOfSpecificRows resolutionOrder d sheetDefinitions sheetStates dirtyRows =
     promiseAll
       (map (\<lambda>sheetDefinition.
               case find (\<lambda>state. ss_sheetId state = sd_id sheetDefinition) sheetStates of
                 None \<Rightarrow> Resolved []
               | Some sheetData \<Rightarrow>
                   (case map_of dirtyRows (sd_id sheetDefinition) of
                      None \<Rightarrow> Resolved []
                    | Some dirtyRowIndices \<Rightarrow>
                        if length dirtyRowIndices > 0 then
                          validateSpecificRows resolutionOrder d sheetDefinition sheetData
                            sheetStates dirtyRowIndices
                        else Resolved []))
            sheetDefinitions)"

text \<open>The second half: the keys of the dirty rows, the filter and the concatenation.\<close>

definition dirtyRowKeys :: "dirty_rows \<Rightarrow> string list" where
  "dirtyRowKeys dirtyRows =
     concat (map (\<lambda>(sheetId, rowIndices). map (rowKey sheetId) rowIndices) dirtyRows)"

definition applyValidationsToSpecificRows ::
  "resolution_order \<Rightarrow> deps \<Rightarrow> sheet_def list \<Rightarrow> sheet_state list
     \<Rightarrow> validation_error list \<Rightarrow> dirty_rows \<Rightarrow> validation_error list promise" where
  "applyValidationsToSpecificRows resolutionOrder d sheetDefinitions sheetStates
       existingErrors dirtyRows =
     (case newErrorsOfSpecificRows resolutionOrder d sheetDefinitions sheetStates dirtyRows of
        Rejected \<Rightarrow> Rejected
      | Resolved newErrors \<Rightarrow>
          (let filteredExistingErrors =
                 filter (\<lambda>error. \<not> (rowKey (ve_sheetId error) (ve_rowIndex error)
                                        \<in> set (dirtyRowKeys dirtyRows)))
                   existingErrors
           in Resolved (filteredExistingErrors @ concat newErrors)))"

section \<open>Transformer pipeline\<close>

text \<open>
  What the modelled code can throw: a \<open>TypeError\<close> of the JavaScript run time, from
  reading a property of \<open>undefined\<close>, and a failure of the storage collaborator.
\<close>

datatype js_error = TypeError | StorageError









section \<open>Collaborators modelled from the specification\<close>

text \<open>
  Modelled from the spec: \<open>isEmptyCell\<close> (utils) is not among the sources. The spec only
  names the check ("applied only to non-empty cells"); a cell is taken to be empty when it
  is \<open>undefined\<close> or the empty string.
\<close>

definition specIsEmptyCell :: "cell \<Rightarrow> bool" where
  "specIsEmptyCell v = (v = Undefined \<or> v = Str [])"

text \<open>
  Modelled from the spec: \<open>hasData\<close> (utils) is not among the sources. A row has data when
  it has at least one non-empty cell.
\<close>

definition specHasData :: "row \<Rightarrow> bool" where
  "specHasData r = list_ex (\<lambda>kv. \<not> specIsEmptyCell (snd kv)) r"

text \<open>
  Modelled from the spec: \<open>buildValidatorFromDefinition\<close> (validator registry) is not among
  the sources. A \<open>required\<close> validator reports a "required" message for an empty cell,
  unless its conditional-applicability predicate is present and false for the row. An
  \<open>includes\<close> validator rejects any value not in the declared value set and accepts all
  declared values. Other tags are not described by the spec and are modelled as always
  valid.
\<close>

definition specBuildValidatorFromDefinition :: "validator_def \<Rightarrow> validator" where
  "specBuildValidatorFromDefinition definition value row =
     (if vd_validate definition = ''required'' then
        (if (case vd_when definition of None \<Rightarrow> True | Some applies \<Rightarrow> applies row)
            \<and> specIsEmptyCell value
         then Resolved (Some ''required'') else Resolved None)
      else if vd_validate definition = ''includes'' then
        (if value \<in> set (case vd_values definition of None \<Rightarrow> [] | Some vs \<Rightarrow> vs)
         then Resolved None else Resolved (Some ''includes''))
      else Resolved None)"

text \<open>
  Modelled from the spec: \<open>extractReferenceColumnPossibleValues\<close> (sheet utils) is not
  among the sources. The allowed set of a \<open>reference\<close> column is computed by scanning all
  sheets for the column it references and collecting that column's distinct present
  values.
\<close>

definition specExtractReferenceColumnPossibleValues ::
  "column_def \<Rightarrow> sheet_state list \<Rightarrow> cell list" where
  "specExtractReferenceColumnPossibleValues columnDefinition allData =
     (case cd_type columnDefinition of
        TReference args \<Rightarrow>
          remdups
            (concat (map (\<lambda>sheet.
                       if ss_sheetId sheet = ra_sheetId args then
                         filter (\<lambda>v. \<not> specIsEmptyCell v)
                           (map (\<lambda>row. getCell row (ra_sheetColumnId args)) (ss_rows sheet))
                       else [])
                     allData))
      | _ \<Rightarrow> [])"

text \<open>
  Modelled from the spec: \<open>buildTransformerFromDefinition\<close> (transformer registry) is not
  among the sources. The \<open>custom\<close> escape hatch carries an arbitrary pure function; the
  built-in tags are not described by the spec and are modelled as the identity on values
  of the declared type (and as \<open>undefined\<close> on an inherited object).
\<close>

definition specBuildTransformerFromDefinition :: "transformer_def \<Rightarrow> transformer" where
  "specBuildTransformerFromDefinition definition =
     (case td_transformFn definition of
        None \<Rightarrow>
          (\<lambda>v. case v of Str s \<Rightarrow> FieldStr s | Num n \<Rightarrow> FieldNum n | Bool b \<Rightarrow> FieldBool b
                | _ \<Rightarrow> FieldUndefined)
      | Some f \<Rightarrow> f)"

definition specDeps :: deps where
  "specDeps =
     \<lparr>hasData = specHasData,
      isEmptyCell = specIsEmptyCell,
      buildValidatorFromDefinition = specBuildValidatorFromDefinition,
      extractReferenceColumnPossibleValues = specExtractReferenceColumnPossibleValues,
      buildTransformerFromDefinition = specBuildTransformerFromDefinition\<rparr>"

section \<open>Notions used to state the properties\<close>

text \<open>The dirty-row map marks the row \<open>(sheetId, rowIndex)\<close>.\<close>

definition dirtyRowsMark :: "dirty_rows \<Rightarrow> string \<Rightarrow> nat \<Rightarrow> bool" where
  "dirtyRowsMark dirty sheetId rowIndex =
     list_ex (\<lambda>entry. fst entry = sheetId \<and> rowIndex \<in> set (snd entry)) dirty"

text \<open>A resolution order only rearranges the evaluations it is given.\<close>

definition rearranges :: "resolution_order \<Rightarrow> bool" where
  "rearranges resolutionOrder = (\<forall>xs. mset (resolutionOrder xs) = mset xs)"

text \<open>
  Two settled validation runs agree up to the order of their errors: both reject, or both
  resolve with the same errors, each the same number of times.
\<close>

definition sameUpToOrder :: "'a list promise \<Rightarrow> 'a list promise \<Rightarrow> bool" where
  "sameUpToOrder p q =
     (case p of
        Rejected \<Rightarrow> q = Rejected
      | Resolved xs \<Rightarrow> (case q of Rejected \<Rightarrow> False | Resolved ys \<Rightarrow> mset xs = mset ys))"

text \<open>
  The effective validator list of a column as the specification has it: the explicit
  definitions followed by the automatic ones derived from its type, each built.
\<close>

definition effectiveValidators :: "deps \<Rightarrow> column_def \<Rightarrow> sheet_state list \<Rightarrow> validator list" where
  "effectiveValidators d columnDefinition allData =
     map (buildValidatorFromDefinition d)
       (explicitValidators columnDefinition
        @ automaticFieldValidators d columnDefinition allData)"

text \<open>
  Full validation of one sheet as the specification words it: for every row that has
  data and for every column, skip the column if the cell is absent from the row and the
  column is not required (conditional predicates ignored); otherwise run every validator
  of that column against the cell value and the full row.
\<close>

definition specCellEvaluations ::
  "deps \<Rightarrow> sheet_state list \<Rightarrow> nat \<Rightarrow> row \<Rightarrow> column_def \<Rightarrow> evaluation list" where
  "specCellEvaluations d allData rowIndex row columnDefinition =
     (if \<not> inRow (cd_id columnDefinition) row
         \<and> \<not> fieldIsRequired columnDefinition (Some True) then []
      else map (\<lambda>v. \<lparr>ev_columnId = cd_id columnDefinition, ev_rowIndex = rowIndex,
                      ev_result = v (getCell row (cd_id columnDefinition)) row\<rparr>)
             (effectiveValidators d columnDefinition allData))"

definition specRowEvaluations ::
  "deps \<Rightarrow> sheet_def \<Rightarrow> sheet_state list \<Rightarrow> nat \<times> row \<Rightarrow> evaluation list" where
  "specRowEvaluations d sheetDefinition allData ir =
     (if hasData d (snd ir) then
        concat (map (specCellEvaluations d allData (fst ir) (snd ir))
                  (sd_columns sheetDefinition))
      else [])"

definition specSheetEvaluations ::
  "deps \<Rightarrow> sheet_def \<Rightarrow> sheet_state \<Rightarrow> sheet_state list \<Rightarrow> evaluation list" where
  "specSheetEvaluations d sheetDefinition sheetData allData =
     concat (map (specRowEvaluations d sheetDefinition allData)
               (enumerate 0 (ss_rows sheetData)))"






section \<open>Importer state\<close>

datatype importer_mode =
  ModeUpload | ModeMapping | ModePreview | ModeSubmit | ModeCompleted | ModeFailed

text \<open>
  Payloads that the modelled functions only pass along: the parsed file, the raw file,
  a column mapping and the import statistics.
\<close>

typedecl parsed_file
typedecl raw_file
typedecl column_mapping
typedecl import_statistics

text \<open>\<open>ImporterState\<close>; an optional field is absent when it is \<open>None\<close>.\<close>

record importer_state =
  sheetDefinitions :: "sheet_def list"
  currentSheetId :: string
  mode :: importer_mode
  validationErrors :: "validation_error list"
  sheetData :: "sheet_state list"
  parsedFile :: "parsed_file option"
  rowFile :: "raw_file option"
  columnMappings :: "column_mapping list option"
  importProgress :: nat
  validationInProgress :: "bool option"
  validationRunId :: "string option"
  importStatistics :: "import_statistics option"
  dirtyRows :: "dirty_rows option"

text \<open>\<open>ImporterAction\<close>, with the payload fields as constructor arguments.\<close>

datatype importer_action =
    ENTER_DATA_MANUALLY nat
  | FILE_PARSED parsed_file raw_file
  | UPLOAD
  | COLUMN_MAPPING_CHANGED "column_mapping list"
  | DATA_MAPPED "sheet_state list"
  | CELL_CHANGED string nat row
  | REMOVE_ROWS string "row list"
  | ADD_EMPTY_ROW
  | SHEET_CHANGED string
  | SUBMIT
  | PROGRESS nat
  | COMPLETED "import_statistics option"
  | FAILED
  | PREVIEW
  | MAPPING
  | RESET
  | SET_STATE importer_state
  | VALIDATION_STARTED string
  | VALIDATION_COMPLETED "validation_error list" string

text \<open>
  \<open>buildInitialState\<close>. Reading \<open>sheetDefinitions[0].id\<close> of an empty list throws a
  \<open>TypeError\<close>.
\<close>

definition buildInitialState :: "sheet_def list \<Rightarrow> js_error + importer_state" where
  "buildInitialState defs =
     (case defs of
        [] \<Rightarrow> Inl TypeError
      | first # rest \<Rightarrow>
          Inr \<lparr>sheetDefinitions = defs,
               currentSheetId = sd_id first,
               mode = ModeUpload,
               validationErrors = [],
               sheetData = map (\<lambda>sheet. \<lparr>ss_sheetId = sd_id sheet, ss_rows = []\<rparr>) defs,
               parsedFile = None,
               rowFile = None,
               columnMappings = None,
               importProgress = 0,
               validationInProgress = Some False,
               validationRunId = None,
               importStatistics = None,
               dirtyRows = None\<rparr>)"

record persistence_config =
  pc_enabled :: bool
  pc_customKey :: "string option"

text \<open>
  The storage collaborator: \<open>getIndexedDBState\<close> settles to a stored state, to \<open>null\<close>
  or fails; \<open>setIndexedDBState\<close> is called without \<open>await\<close>, so only a synchronous throw
  of it (\<open>True\<close>) can be observed.
\<close>

record storage =
  getIndexedDBState :: "sheet_def list \<Rightarrow> string option \<Rightarrow> importer_state option promise"
  setIndexedDBStateThrows :: "importer_state \<Rightarrow> string option \<Rightarrow> bool"

definition buildStateWithIndexedDB ::
  "storage \<Rightarrow> sheet_def list \<Rightarrow> persistence_config \<Rightarrow> js_error + importer_state" where
  "buildStateWithIndexedDB store defs persistenceConfig =
     (case getIndexedDBState store defs (pc_customKey persistenceConfig) of
        Rejected \<Rightarrow> Inl StorageError
      | Resolved (Some state) \<Rightarrow> Inr state
      | Resolved None \<Rightarrow>
          (case buildInitialState defs of
             Inl e \<Rightarrow> Inl e
           | Inr newState \<Rightarrow>
               if setIndexedDBStateThrows store newState (pc_customKey persistenceConfig)
               then Inl StorageError else Inr newState))"

text \<open>
  \<open>buildState\<close>: the default state is built before the \<open>try\<close> block, so its
  \<open>TypeError\<close> is not caught; everything thrown inside the block yields the default
  state.
\<close>

definition buildState ::
  "storage \<Rightarrow> sheet_def list \<Rightarrow> persistence_config \<Rightarrow> js_error + importer_state" where
  "buildState store defs persistenceConfig =
     (case buildInitialState defs of
        Inl e \<Rightarrow> Inl e
      | Inr defaultState \<Rightarrow>
          if \<not> pc_enabled persistenceConfig then Inr defaultState
          else
            (case buildStateWithIndexedDB store defs persistenceConfig of
               Inl e \<Rightarrow> Inr defaultState
             | Inr state \<Rightarrow> Inr state))"

section \<open>State builder\<close>

text \<open>
  \<open>StateBuilder.getState\<close>, as a function of the object's fields (the sheets of the
  importer definition, the initial state, the build steps) and of the reducer, which
  lives in another module. A validation run that rejects is replaced by the errors of
  the folded state (\<open>.catch(() => state.validationErrors)\<close>).
\<close>

type_synonym reducer = "importer_state \<Rightarrow> importer_action \<Rightarrow> importer_state"

definition hasDirtyRows :: "importer_state \<Rightarrow> bool" where
  "hasDirtyRows state =
     (case dirtyRows state of
        None \<Rightarrow> False
      | Some rows \<Rightarrow> list_ex (\<lambda>s. length s > 0) (map snd rows))"

definition getState ::
  "resolution_order \<Rightarrow> deps \<Rightarrow> reducer \<Rightarrow> sheet_def list \<Rightarrow> importer_state
     \<Rightarrow> importer_action list \<Rightarrow> importer_state" where
  "getState resolutionOrder d reduce sheets initialState buildSteps =
     (let state = foldl reduce initialState buildSteps;
          newValidationErrors =
            (if hasDirtyRows state then
               (case dirtyRows state of
                  None \<Rightarrow> validationErrors state
                | Some rows \<Rightarrow>
                    (case applyValidationsToSpecificRows resolutionOrder d sheets
                            (sheetData state) (validationErrors state) rows of
                       Rejected \<Rightarrow> validationErrors state
                     | Resolved errors \<Rightarrow> errors))
             else
               (case applyValidations resolutionOrder d sheets (sheetData state) of
                  Rejected \<Rightarrow> validationErrors state
                | Resolved errors \<Rightarrow> errors))
      in state\<lparr>validationErrors := newValidationErrors\<rparr>)"

text \<open>
  Modelled from the spec: the reducer is not among the sources. The table of actions in
  the specification gives the effect of each action; where it leaves a detail open the
  simplest reading is taken (manual entry fills every sheet, an empty row goes to the
  current sheet, a changed cell creates the dirty-row map when there is none).
\<close>

definition markDirty :: "string \<Rightarrow> nat \<Rightarrow> dirty_rows \<Rightarrow> dirty_rows" where
  "markDirty sheetId rowIndex rows =
     (case map_of rows sheetId of
        None \<Rightarrow> rows @ [(sheetId, [rowIndex])]
      | Some indices \<Rightarrow>
          AList.update sheetId
            (if rowIndex \<in> set indices then indices else indices @ [rowIndex]) rows)"

definition specReducer :: reducer where
  "specReducer state action =
     (case action of
        ENTER_DATA_MANUALLY n \<Rightarrow>
          state\<lparr>sheetData := map (\<lambda>s. s\<lparr>ss_rows := replicate n []\<rparr>) (sheetData state),
                mode := ModePreview\<rparr>
      | FILE_PARSED parsed file \<Rightarrow>
          state\<lparr>parsedFile := Some parsed, rowFile := Some file, mode := ModeMapping\<rparr>
      | UPLOAD \<Rightarrow> state\<lparr>mode := ModeUpload\<rparr>
      | COLUMN_MAPPING_CHANGED mappings \<Rightarrow> state\<lparr>columnMappings := Some mappings\<rparr>
      | DATA_MAPPED mappedData \<Rightarrow> state\<lparr>sheetData := mappedData, mode := ModePreview\<rparr>
      | CELL_CHANGED sheetId rowIndex value \<Rightarrow>
          state\<lparr>sheetData :=
                  map (\<lambda>s. if ss_sheetId s = sheetId
                            then s\<lparr>ss_rows := (ss_rows s)[rowIndex := value]\<rparr> else s)
                    (sheetData state),
                dirtyRows :=
                  Some (markDirty sheetId rowIndex
                          (case dirtyRows state of None \<Rightarrow> [] | Some rows \<Rightarrow> rows))\<rparr>
      | REMOVE_ROWS sheetId removed \<Rightarrow>
          state\<lparr>sheetData :=
                  map (\<lambda>s. if ss_sheetId s = sheetId
                            then s\<lparr>ss_rows := filter (\<lambda>r. r \<notin> set removed) (ss_rows s)\<rparr>
                            else s)
                    (sheetData state)\<rparr>
      | ADD_EMPTY_ROW \<Rightarrow>
          state\<lparr>sheetData :=
                  map (\<lambda>s. if ss_sheetId s = currentSheetId state
                            then s\<lparr>ss_rows := ss_rows s @ [[]]\<rparr> else s)
                    (sheetData state)\<rparr>
      | SHEET_CHANGED sheetId \<Rightarrow> state\<lparr>currentSheetId := sheetId\<rparr>
      | SUBMIT \<Rightarrow> state\<lparr>mode := ModeSubmit\<rparr>
      | PROGRESS progress \<Rightarrow> state\<lparr>importProgress := progress\<rparr>
      | COMPLETED statistics \<Rightarrow> state\<lparr>mode := ModeCompleted, importStatistics := statistics\<rparr>
      | FAILED \<Rightarrow> state\<lparr>mode := ModeFailed\<rparr>
      | PREVIEW \<Rightarrow> state\<lparr>mode := ModePreview\<rparr>
      | MAPPING \<Rightarrow> state\<lparr>mode := ModeMapping\<rparr>
      | RESET \<Rightarrow>
          (case buildInitialState (sheetDefinitions state) of
             Inl e \<Rightarrow> state
           | Inr initial \<Rightarrow> initial)
      | SET_STATE newState \<Rightarrow> newState
      | VALIDATION_STARTED runId \<Rightarrow>
          state\<lparr>validationInProgress := Some True, validationRunId := Some runId\<rparr>
      | VALIDATION_COMPLETED errors runId \<Rightarrow>
          if validationRunId state = Some runId
          then state\<lparr>validationErrors := errors, validationInProgress := Some False\<rparr>
          else state)"

section \<open>Interactive state builder\<close>

text \<open>
  The fields of an \<open>InnerStateBuilder\<close> that change (\<open>buildSteps\<close> and
  \<open>validationTimeoutId\<close>) together with what it has handed to its environment: the
  pending timers, each with the run id its callback captured; the validation runs that a
  fired timer has started and that have not settled yet, each with its run id and the
  errors \<open>getState\<close> computes; and every action passed to \<open>dispatch\<close>, in order.
  \<open>nextTimer\<close> is the handle the next \<open>setTimeout\<close> returns; handles are never zero, so
  a stored handle is truthy.
\<close>

record world =
  buildSteps :: "importer_action list"
  validationTimeoutId :: "nat option"
  timers :: "(nat \<times> string) list"
  nextTimer :: nat
  running :: "(string \<times> validation_error list) list"
  dispatched :: "importer_action list"

text \<open>The fields that never change, and the reducer that \<open>getState\<close> folds with.\<close>

record builder_setup =
  su_resolutionOrder :: resolution_order
  su_deps :: deps
  su_reducer :: reducer
  su_sheets :: "sheet_def list"
  su_initialState :: importer_state


text \<open>\<open>actionTypesThatRequireValidation.has(step.type)\<close>.\<close>

definition requiresValidation :: "importer_action \<Rightarrow> bool" where
  "requiresValidation step =
     (case step of
        DATA_MAPPED mappedData \<Rightarrow> True
      | CELL_CHANGED sheetId rowIndex value \<Rightarrow> True
      | REMOVE_ROWS sheetId removed \<Rightarrow> True
      | _ \<Rightarrow> False)"

definition dispatch :: "importer_action \<Rightarrow> world \<Rightarrow> world" where
  "dispatch action w = w\<lparr>dispatched := dispatched w @ [action]\<rparr>"

definition clearTimeout :: "nat \<Rightarrow> world \<Rightarrow> world" where
  "clearTimeout handle w = w\<lparr>timers := filter (\<lambda>timer. fst timer \<noteq> handle) (timers w)\<rparr>"

text \<open>
  \<open>this.validationTimeoutId = setTimeout(callback, VALIDATION_DEBOUNCE_MS)\<close>, the
  callback having captured \<open>runId\<close>.
\<close>

definition setTimeout :: "string \<Rightarrow> world \<Rightarrow> world" where
  "setTimeout runId w =
     w\<lparr>timers := timers w @ [(nextTimer w, runId)],
       nextTimer := Suc (nextTimer w),
       validationTimeoutId := Some (nextTimer w)\<rparr>"

text \<open>
  \<open>dispatchChange(dispatch)\<close>; the value of \<open>generateValidationRunId()\<close> is the argument
  \<open>runId\<close>.
\<close>

definition dispatchChange :: "string \<Rightarrow> world \<Rightarrow> world" where
  "dispatchChange runId w =
     (let shouldValidate = list_ex requiresValidation (buildSteps w);
          w1 = (if shouldValidate then dispatch (VALIDATION_STARTED runId) w else w);
          w2 = foldl (\<lambda>v step. dispatch step v) w1 (buildSteps w)
      in if shouldValidate then
           (let w3 = (case validationTimeoutId w2 of
                        Some handle \<Rightarrow> clearTimeout handle w2
                      | None \<Rightarrow> w2)
            in setTimeout runId w3)
         else w2)"

text \<open>
  A pending timer fires: its callback calls \<open>runValidation\<close>, which reads the build
  steps through \<open>getState\<close> and suspends until the validation has settled, and then
  clears \<open>validationTimeoutId\<close>. A handle that is not pending does nothing.
\<close>

definition timerFires :: "builder_setup \<Rightarrow> nat \<Rightarrow> world \<Rightarrow> world" where
  "timerFires su handle w =
     (case map_of (timers w) handle of
        None \<Rightarrow> w
      | Some runId \<Rightarrow>
          (let finalState =
                 getState (su_resolutionOrder su) (su_deps su) (su_reducer su) (su_sheets su)
                   (su_initialState su) (buildSteps w)
           in w\<lparr>timers := filter (\<lambda>timer. fst timer \<noteq> handle) (timers w),
                running := running w @ [(runId, validationErrors finalState)],
                validationTimeoutId := None\<rparr>))"

text \<open>
  The \<open>k\<close>-th suspended \<open>runValidation\<close> resumes and dispatches
  \<open>VALIDATION_COMPLETED\<close> with its errors and its run id.
\<close>

definition validationSettles :: "nat \<Rightarrow> world \<Rightarrow> world" where
  "validationSettles k w =
     (if k < length (running w) then
        dispatch (VALIDATION_COMPLETED (snd (running w ! k)) (fst (running w ! k)))
          (w\<lparr>running := take k (running w) @ drop (Suc k) (running w)\<rparr>)
      else w)"

text \<open>
  What can happen to a builder: a call of one of its methods that push build steps (the
  results of the asynchronous collaborators of \<open>uploadFile\<close> and \<open>confirmMappings\<close> are
  arguments), a call of \<open>dispatchChange\<close> with the run id it generates, a timer firing,
  a validation run settling.
\<close>

datatype event =
    UploadFile parsed_file raw_file "column_mapping list"
  | SetEnterDataManually nat
  | SetMappings "column_mapping list"
  | ConfirmMappings "sheet_state list"
  | ChangeCell string nat row
  | RemoveRows string "row list"
  | DispatchChange string
  | TimerFires nat
  | ValidationSettles nat

definition pushSteps :: "importer_action list \<Rightarrow> world \<Rightarrow> world" where
  "pushSteps steps w = w\<lparr>buildSteps := buildSteps w @ steps\<rparr>"

fun step :: "builder_setup \<Rightarrow> world \<Rightarrow> event \<Rightarrow> world" where
  "step su w (UploadFile parsed file mappings) =
     pushSteps [FILE_PARSED parsed file, COLUMN_MAPPING_CHANGED mappings] w"
| "step su w (SetEnterDataManually amount) = pushSteps [ENTER_DATA_MANUALLY amount] w"
| "step su w (SetMappings mappings) = pushSteps [COLUMN_MAPPING_CHANGED mappings] w"
| "step su w (ConfirmMappings mappedData) = pushSteps [DATA_MAPPED mappedData] w"
| "step su w (ChangeCell sheetId rowIndex value) =
     pushSteps [CELL_CHANGED sheetId rowIndex value] w"
| "step su w (RemoveRows sheetId removed) = pushSteps [REMOVE_ROWS sheetId removed] w"
| "step su w (DispatchChange runId) = dispatchChange runId w"
| "step su w (TimerFires handle) = timerFires su handle w"
| "step su w (ValidationSettles k) = validationSettles k w"

definition run :: "builder_setup \<Rightarrow> event list \<Rightarrow> world \<Rightarrow> world" where
  "run su events w = foldl (step su) w events"

text \<open>
  The run ids that the calls of \<open>dispatchChange\<close> among the events generate, in order,
  and the two kinds of event that delimit a debounce window: inside it no timer fires,
  and after its last \<open>dispatchChange\<close> none follows.
\<close>

definition runIdsOf :: "event list \<Rightarrow> string list" where
  "runIdsOf events =
     concat (map (\<lambda>e. case e of DispatchChange runId \<Rightarrow> [runId] | _ \<Rightarrow> []) events)"











section \<open>Example inputs\<close>

definition requiredWhen :: "(row \<Rightarrow> bool) option \<Rightarrow> validator_def" where
  "requiredWhen w = \<lparr>vd_validate = ''required'', vd_values = None, vd_when = w\<rparr>"

definition twiceRequiredColumn :: column_def where
  "twiceRequiredColumn =
     \<lparr>cd_id = ''age'', cd_type = TNumber,
      cd_validators = Some [requiredWhen (Some (\<lambda>r. inRow ''name'' r)), requiredWhen None],
      cd_transformers = None\<rparr>"

definition peopleSheet :: sheet_def where
  "peopleSheet =
     \<lparr>sd_id = ''people'',
      sd_columns =
        [\<lparr>cd_id = ''name'', cd_type = TString, cd_validators = Some [requiredWhen None],
          cd_transformers = None\<rparr>,
         \<lparr>cd_id = ''age'', cd_type = TNumber, cd_validators = Some [requiredWhen None],
          cd_transformers = None\<rparr>,
         \<lparr>cd_id = ''status'',
          cd_type = TEnum [\<lparr>eo_label = ''Active'', eo_value = Str ''active''\<rparr>,
                           \<lparr>eo_label = ''Inactive'', eo_value = Str ''inactive''\<rparr>],
          cd_validators = None, cd_transformers = None\<rparr>]\<rparr>"

definition peopleRows :: "row list" where
  "peopleRows =
     [[(''name'', Str ''Ann''), (''age'', Num 30), (''status'', Str ''pending'')],
      [(''name'', Str ''Bob'')],
      []]"

definition peopleState :: sheet_state where
  "peopleState = \<lparr>ss_sheetId = ''people'', ss_rows = peopleRows\<rparr>"

definition staleError :: validation_error where
  "staleError =
     \<lparr>ve_sheetId = ''people'', ve_columnId = ''age'', ve_rowIndex = 5,
      ve_message = ''required''\<rparr>"

definition bobAgeError :: validation_error where
  "bobAgeError =
     \<lparr>ve_sheetId = ''people'', ve_columnId = ''age'', ve_rowIndex = 1,
      ve_message = ''required''\<rparr>"

definition annStatusError :: validation_error where
  "annStatusError =
     \<lparr>ve_sheetId = ''people'', ve_columnId = ''status'', ve_rowIndex = 0,
      ve_message = ''includes''\<rparr>"

definition bobStaleError :: validation_error where
  "bobStaleError =
     \<lparr>ve_sheetId = ''people'', ve_columnId = ''name'', ve_rowIndex = 1,
      ve_message = ''out of date''\<rparr>"

text \<open>
  Collaborators whose validators always fail; a sheet that has a definition but no state,
  and an error left for it.
\<close>

definition failingDeps :: deps where
  "failingDeps = specDeps\<lparr>buildValidatorFromDefinition := (\<lambda>definition value row. Rejected)\<rparr>"

definition archiveSheet :: sheet_def where
  "archiveSheet =
     \<lparr>sd_id = ''archive'',
      sd_columns = [\<lparr>cd_id = ''name'', cd_type = TString,
                     cd_validators = Some [requiredWhen None], cd_transformers = None\<rparr>]\<rparr>"

definition archiveError :: validation_error where
  "archiveError =
     \<lparr>ve_sheetId = ''archive'', ve_columnId = ''name'', ve_rowIndex = 0,
      ve_message = ''required''\<rparr>"

text \<open>A second sheet whose \<open>owner\<close> column refers to the \<open>name\<close> column of the first.\<close>

definition ownerColumn :: column_def where
  "ownerColumn =
     \<lparr>cd_id = ''owner'',
      cd_type = TReference \<lparr>ra_sheetId = ''people'', ra_sheetColumnId = ''name''\<rparr>,
      cd_validators = None, cd_transformers = None\<rparr>"

definition petsSheet :: sheet_def where
  "petsSheet = \<lparr>sd_id = ''pets'', sd_columns = [ownerColumn]\<rparr>"

definition petsState :: sheet_state where
  "petsState =
     \<lparr>ss_sheetId = ''pets'', ss_rows = [[(''owner'', Str ''Bob'')], [(''owner'', Str ''Carl'')]]\<rparr>"

definition morePeopleState :: sheet_state where
  "morePeopleState =
     \<lparr>ss_sheetId = ''people'', ss_rows = peopleRows @ [[(''name'', Str ''Carl'')]]\<rparr>"

definition carlOwnerError :: validation_error where
  "carlOwnerError =
     \<lparr>ve_sheetId = ''pets'', ve_columnId = ''owner'', ve_rowIndex = 1,
      ve_message = ''includes''\<rparr>"

definition statusColumn :: column_def where
  "statusColumn =
     \<lparr>cd_id = ''status'',
      cd_type = TEnum [\<lparr>eo_label = ''Active'', eo_value = Str ''active''\<rparr>,
                       \<lparr>eo_label = ''Inactive'', eo_value = Str ''inactive''\<rparr>],
      cd_validators = None, cd_transformers = None\<rparr>"


definition twice :: transformer where
  "twice v = (case v of Str s \<Rightarrow> FieldStr (s @ s) | _ \<Rightarrow> FieldUndefined)"

definition customTransformer :: "transformer \<Rightarrow> transformer_def" where
  "customTransformer f = \<lparr>td_transformer = ''custom'', td_transformFn = Some f\<rparr>"




text \<open>Storage that fails to load, and storage that holds nothing and cannot save.\<close>

definition failingStorage :: storage where
  "failingStorage =
     \<lparr>getIndexedDBState = (\<lambda>defs key. Rejected),
      setIndexedDBStateThrows = (\<lambda>state key. False)\<rparr>"

definition emptyStorage :: storage where
  "emptyStorage =
     \<lparr>getIndexedDBState = (\<lambda>defs key. Resolved None),
      setIndexedDBStateThrows = (\<lambda>state key. True)\<rparr>"

definition peopleInitialState :: importer_state where
  "peopleInitialState =
     \<lparr>sheetDefinitions = [peopleSheet, petsSheet],
      currentSheetId = ''people'',
      mode = ModeUpload,
      validationErrors = [],
      sheetData = [\<lparr>ss_sheetId = ''people'', ss_rows = []\<rparr>,
                   \<lparr>ss_sheetId = ''pets'', ss_rows = []\<rparr>],
      parsedFile = None,
      rowFile = None,
      columnMappings = None,
      importProgress = 0,
      validationInProgress = Some False,
      validationRunId = None,
      importStatistics = None,
      dirtyRows = None\<rparr>"

text \<open>A state under edit, with an error left from an earlier run.\<close>

definition editedState :: importer_state where
  "editedState =
     peopleInitialState\<lparr>sheetDefinitions := [peopleSheet], mode := ModePreview,
       sheetData := [peopleState], validationErrors := [staleError]\<rparr>"

definition bobEdit :: importer_action where
  "bobEdit = CELL_CHANGED ''people'' 1 [(''name'', Str ''Bob'')]"








text \<open>
  A sheet with two columns of the same id: the first requires a value and doubles it, the
  second has no validator and doubles it as well.
\<close>

definition echoRequired :: column_def where
  "echoRequired =
     \<lparr>cd_id = ''word'', cd_type = TString, cd_validators = Some [requiredWhen None],
      cd_transformers = Some [customTransformer twice]\<rparr>"

definition echoPlain :: column_def where
  "echoPlain =
     \<lparr>cd_id = ''word'', cd_type = TString, cd_validators = None,
      cd_transformers = Some [customTransformer twice]\<rparr>"

definition echoSheet :: sheet_def where
  "echoSheet = \<lparr>sd_id = ''echo'', sd_columns = [echoRequired, echoPlain]\<rparr>"

definition echoState :: sheet_state where
  "echoState =
     \<lparr>ss_sheetId = ''echo'',
      ss_rows = [[(''word'', Str ''hi'')], [(''note'', Str ''data'')]]\<rparr>"

section \<open>Properties of \<open>fieldIsRequired\<close>\<close>

lemma find_None_iff_no_required:
  "(find P xs = None) = (\<forall>x \<in> set xs. \<not> P x)"
  by (induction xs) auto

text \<open>
  C5 (as the code has it). With \<open>skipConditionCheck: true\<close> the result is true exactly
  when some validator definition of the column has \<open>validate = 'required'\<close>. With
  \<open>skipConditionCheck: false\<close>, or with the option omitted, the result is true exactly when
  such a definition exists and the first one in the list has no \<open>when\<close> predicate.
\<close>

theorem fieldIsRequired_characterisation:
  "(fieldIsRequired c (Some True) \<longleftrightarrow>
      (\<exists>v \<in> set (explicitValidators c). vd_validate v = ''required''))
   \<and> (skip \<noteq> Some True \<longrightarrow>
        (fieldIsRequired c skip \<longleftrightarrow>
          (\<exists>v. find (\<lambda>v. vd_validate v = ''required'') (explicitValidators c) = Some v
               \<and> vd_when v = None)))"
proof -
  have none: "find (\<lambda>v. vd_validate v = ''required'') vs = None
      \<longleftrightarrow> \<not> (\<exists>v \<in> set vs. vd_validate v = ''required'')" for vs :: "validator_def list"
    by (simp add: find_None_iff_no_required)
  show ?thesis
  proof (cases "cd_validators c")
    case None
    then show ?thesis by (simp add: fieldIsRequired_def explicitValidators_def)
  next
    case (Some vs)
    show ?thesis
    proof (cases "find (\<lambda>v. vd_validate v = ''required'') vs")
      case None
      with Some none [of vs] show ?thesis
        by (auto simp: fieldIsRequired_def explicitValidators_def)
    next
      case (Some v)
      with none [of vs] have ex: "\<exists>v \<in> set vs. vd_validate v = ''required''" by simp
      then have "vs \<noteq> []" by auto
      with Some \<open>cd_validators c = Some vs\<close> ex show ?thesis
        by (auto simp: fieldIsRequired_def explicitValidators_def)
    qed
  qed
qed

theorem fieldIsRequired_characterisation_witness:
  "fieldIsRequired twiceRequiredColumn (Some True)
   \<and> \<not> fieldIsRequired twiceRequiredColumn (Some False)
   \<and> \<not> fieldIsRequired twiceRequiredColumn None"
  using fieldIsRequired_characterisation [of twiceRequiredColumn "Some False"]
    fieldIsRequired_characterisation [of twiceRequiredColumn None]
  by (simp add: twiceRequiredColumn_def requiredWhen_def explicitValidators_def)

text \<open>
  C5 as stated fails: a column whose first \<open>required\<close> definition is conditional and whose
  second is not has a \<open>required\<close> validator without a \<open>when\<close> predicate, yet the answer
  without \<open>skipConditionCheck\<close> is false.
\<close>

theorem fieldIsRequired_counterexample:
  "\<not> (fieldIsRequired twiceRequiredColumn (Some False) \<longleftrightarrow>
       (\<exists>v \<in> set (explicitValidators twiceRequiredColumn).
          vd_validate v = ''required'' \<and> vd_when v = None))"
  by (simp add: fieldIsRequired_def twiceRequiredColumn_def requiredWhen_def
      explicitValidators_def)

section \<open>The row key of the incremental merge\<close>

lemma below_ten: "k < 10 \<Longrightarrow> k \<in> {0,1,2,3,4,5,6,7,8,9::nat}"
  by auto

lemma digitChar_neq_dash: "digitChar n \<noteq> CHR ''-''"
proof -
  have "n mod 10 \<in> {0,1,2,3,4,5,6,7,8,9}" using below_ten [of "n mod 10"] by simp
  then show ?thesis unfolding digitChar_def by auto
qed

lemma digitChar_inj:
  assumes "a < 10" "b < 10" "digitChar a = digitChar b"
  shows "a = b"
proof -
  have a: "a \<in> {0,1,2,3,4,5,6,7,8,9}" using assms(1) by (rule below_ten)
  have b: "b \<in> {0,1,2,3,4,5,6,7,8,9}" using assms(2) by (rule below_ten)
  from a b assms(3) show ?thesis unfolding digitChar_def by auto
qed

lemma numberToString_not_Nil: "numberToString n \<noteq> []"
  by (subst numberToString.simps) simp

lemma numberToString_no_dash: "CHR ''-'' \<notin> set (numberToString n)"
proof (induction n rule: numberToString.induct)
  case (1 n)
  show ?case
    using 1 by (subst numberToString.simps) (simp add: digitChar_neq_dash [symmetric])
qed

lemma numberToString_snoc:
  "numberToString n = (if n < 10 then [] else numberToString (n div 10)) @ [digitChar (n mod 10)]"
  by (subst numberToString.simps) simp

lemma numberToString_inj: "numberToString m = numberToString n \<Longrightarrow> m = n"
proof (induction m arbitrary: n rule: numberToString.induct)
  case (1 m)
  have eq: "(if m < 10 then [] else numberToString (m div 10)) @ [digitChar (m mod 10)]
     = (if n < 10 then [] else numberToString (n div 10)) @ [digitChar (n mod 10)]"
    using "1.prems" numberToString_snoc [of m] numberToString_snoc [of n] by simp
  then have d: "digitChar (m mod 10) = digitChar (n mod 10)"
    and p: "(if m < 10 then [] else numberToString (m div 10))
          = (if n < 10 then [] else numberToString (n div 10))" by simp_all
  from d have md: "m mod 10 = n mod 10" by (intro digitChar_inj) simp_all
  show ?case
  proof (cases "m < 10")
    case True
    with p numberToString_not_Nil [of "n div 10"] have "n < 10" by (auto split: if_splits)
    with True md show ?thesis by simp
  next
    case False
    with p numberToString_not_Nil [of "m div 10"] have n: "\<not> n < 10" by (auto split: if_splits)
    with False p have "numberToString (m div 10) = numberToString (n div 10)" by simp
    with "1.IH" False have "m div 10 = n div 10" by simp
    with md show ?thesis by (metis div_mult_mod_eq)
  qed
qed

lemma dash_split_unique:
  assumes "a @ CHR ''-'' # x = b @ CHR ''-'' # y"
    and "CHR ''-'' \<notin> set x" and "CHR ''-'' \<notin> set y"
  shows "a = b \<and> x = y"
proof -
  have "takeWhile (\<lambda>c. c \<noteq> CHR ''-'') (rev (a @ CHR ''-'' # x)) = rev x"
    using assms(2) by (auto simp: takeWhile_tail)
  moreover have "takeWhile (\<lambda>c. c \<noteq> CHR ''-'') (rev (b @ CHR ''-'' # y)) = rev y"
    using assms(3) by (auto simp: takeWhile_tail)
  ultimately have "x = y" using assms(1) by simp
  with assms(1) show ?thesis by simp
qed

lemma rowKey_inj: "rowKey s i = rowKey t j \<longleftrightarrow> s = t \<and> i = j"
proof
  assume "rowKey s i = rowKey t j"
  then have "s @ CHR ''-'' # numberToString i = t @ CHR ''-'' # numberToString j"
    by (simp add: rowKey_def)
  then have "s = t \<and> numberToString i = numberToString j"
    by (rule dash_split_unique) (rule numberToString_no_dash)+
  then show "s = t \<and> i = j" by (auto dest: numberToString_inj)
qed simp

section \<open>Evaluating the examples\<close>

lemmas example_simps =
  newErrorsOfSpecificRows_def validateSpecificRows_def validateSheet_def applyValidations_def
  peopleSheet_def peopleState_def peopleRows_def
  specDeps_def joinEvaluations_def validatorsByColumnId_def eachWithObject_def
  launchSpecificCell_def launchCell_def
  enumerate_eq_zip pushError_def explicitValidators_def automaticFieldValidators_def
  specBuildValidatorFromDefinition_def specHasData_def specIsEmptyCell_def inRow_def getCell_def
  fieldIsRequired_def requiredWhen_def bobAgeError_def annStatusError_def staleError_def
  bobStaleError_def dirtyRowsMark_def objectPrototypeKeys_def

section \<open>The incremental merge\<close>

lemma dirtyRowKeys_member:
  "rowKey s i \<in> set (dirtyRowKeys D) \<longleftrightarrow> dirtyRowsMark D s i"
proof -
  have "rowKey s i \<in> set (dirtyRowKeys D)
      \<longleftrightarrow> (\<exists>entry \<in> set D. rowKey s i \<in> rowKey (fst entry) ` set (snd entry))"
    by (simp add: dirtyRowKeys_def case_prod_beta)
  also have "\<dots> \<longleftrightarrow> (\<exists>entry \<in> set D. fst entry = s \<and> i \<in> set (snd entry))"
    by (simp add: rowKey_inj image_iff) blast
  finally show ?thesis by (simp add: dirtyRowsMark_def list_ex_iff)
qed

text \<open>
  C2. The merge of \<open>applyValidationsToSpecificRows\<close>: when the incremental run yields
  the fresh errors \<open>N\<close>, the result is the elements of \<open>E\<close> whose
  \<open>(sheetId, rowIndex)\<close> is not marked by \<open>D\<close>, unchanged and in their original
  order, followed by all of \<open>N\<close>. (When the run fails there is no merge.)
\<close>

theorem merge_replaces_dirty_rows:
  "applyValidationsToSpecificRows ord d defs states E D =
     (case newErrorsOfSpecificRows ord d defs states D of
        Rejected \<Rightarrow> Rejected
      | Resolved N \<Rightarrow>
          Resolved (filter (\<lambda>e. \<not> dirtyRowsMark D (ve_sheetId e) (ve_rowIndex e)) E @ concat N))"
proof -
  have by_pair: "filter (\<lambda>error. \<not> (rowKey (ve_sheetId error) (ve_rowIndex error)
                                  \<in> set (dirtyRowKeys D))) E
      = filter (\<lambda>e. \<not> dirtyRowsMark D (ve_sheetId e) (ve_rowIndex e)) E"
    by (simp only: dirtyRowKeys_member)
  show ?thesis
  proof (cases "newErrorsOfSpecificRows ord d defs states D")
    case Rejected
    then show ?thesis by (simp add: applyValidationsToSpecificRows_def)
  next
    case (Resolved N)
    with by_pair show ?thesis by (simp add: applyValidationsToSpecificRows_def)
  qed
qed

theorem merge_replaces_dirty_rows_witness:
  "applyValidationsToSpecificRows id specDeps [peopleSheet] [peopleState]
     [staleError, bobStaleError, annStatusError] [(''people'', [1])]
   = Resolved [staleError, annStatusError, bobAgeError]"
  using merge_replaces_dirty_rows [of id specDeps "[peopleSheet]" "[peopleState]"
      "[staleError, bobStaleError, annStatusError]" "[(''people'', [1])]"]
  by (simp add: example_simps)

section \<open>Incremental validation with every row dirty\<close>

lemma promiseAll_all_resolved:
  "promiseAll (map (\<lambda>x. Resolved (f x)) xs) = Resolved (map f xs)"
  by (induction xs) simp_all

lemma sameUpToOrder_promiseAll:
  assumes "\<And>x. x \<in> set xs \<Longrightarrow> sameUpToOrder (f x) (g x)"
  shows "sameUpToOrder
           (case promiseAll (map f xs) of Rejected \<Rightarrow> Rejected | Resolved ys \<Rightarrow> Resolved (concat ys))
           (case promiseAll (map g xs) of Rejected \<Rightarrow> Rejected | Resolved ys \<Rightarrow> Resolved (concat ys))"
  using assms
proof (induction xs)
  case Nil
  then show ?case by (simp add: sameUpToOrder_def)
next
  case (Cons x xs)
  from Cons.prems have hd: "sameUpToOrder (f x) (g x)" by simp
  from Cons have tl: "sameUpToOrder
           (case promiseAll (map f xs) of Rejected \<Rightarrow> Rejected | Resolved ys \<Rightarrow> Resolved (concat ys))
           (case promiseAll (map g xs) of Rejected \<Rightarrow> Rejected | Resolved ys \<Rightarrow> Resolved (concat ys))"
    by simp
  from hd tl show ?case
    by (cases "f x"; cases "g x"; cases "promiseAll (map f xs)"; cases "promiseAll (map g xs)")
       (simp_all add: sameUpToOrder_def)
qed

lemma mset_concat_map_cong:
  assumes "mset xs = mset ys"
  shows "mset (concat (map f xs)) = mset (concat (map f ys))"
proof -
  have "mset (concat (map f zs)) = sum_mset (image_mset (\<lambda>z. mset (f z)) (mset zs))" for zs
    by (induction zs) simp_all
  with assms show ?thesis by simp
qed

lemma sameUpToOrder_joinEvaluations:
  assumes "rearranges ord1" "rearranges ord2"
  shows "sameUpToOrder (joinEvaluations ord1 s evs) (joinEvaluations ord2 s evs)"
proof -
  from assms have "mset (ord1 evs) = mset (ord2 evs)" by (simp add: rearranges_def)
  then have "mset (concat (map (pushError s) (ord1 evs)))
           = mset (concat (map (pushError s) (ord2 evs)))"
    by (rule mset_concat_map_cong)
  then show ?thesis by (simp add: joinEvaluations_def sameUpToOrder_def)
qed

lemma launchSpecificCell_dirty:
  "i \<in> set idx \<Longrightarrow> launchSpecificCell d m idx c (i, r) = launchCell d m c (i, r)"
  by (simp add: launchSpecificCell_def launchCell_def)

lemma launchSpecificCell_all_dirty:
  assumes "\<forall>i < length rows. i \<in> set idx"
  shows "map (launchSpecificCell d m idx c) (enumerate 0 rows)
       = map (launchCell d m c) (enumerate 0 rows)"
proof (rule map_cong [OF refl])
  fix ir assume "ir \<in> set (enumerate 0 rows)"
  then have "fst ir < length rows"
    by (simp add: in_set_enumerate_eq)
  with assms have "fst ir \<in> set idx" by simp
  then have "launchSpecificCell d m idx c (fst ir, snd ir) = launchCell d m c (fst ir, snd ir)"
    by (rule launchSpecificCell_dirty)
  then show "launchSpecificCell d m idx c ir = launchCell d m c ir" by simp
qed

lemma validateSpecificRows_all_dirty:
  assumes "\<forall>i < length (ss_rows st). i \<in> set idx"
  shows "validateSpecificRows ord d def st all idx = validateSheet ord d def st all"
  using assms
  by (simp add: validateSpecificRows_def validateSheet_def launchSpecificCell_all_dirty)

lemma concat_map_Nil: "concat (map (\<lambda>x. []) xs) = []"
  by (induction xs) simp_all

lemma validateSheet_no_rows:
  assumes "rearranges ord" "ss_rows st = []"
  shows "validateSheet ord d def st all = Resolved []"
proof -
  from assms(1) have "mset (ord []) = mset []" unfolding rearranges_def by blast
  then have "ord [] = []" by simp
  with assms(2) show ?thesis
    by (simp add: validateSheet_def joinEvaluations_def concat_map_Nil)
qed

lemma find_Some_sheet:
  "find (\<lambda>state. ss_sheetId state = k) states = Some st \<Longrightarrow> st \<in> set states \<and> ss_sheetId st = k"
  by (auto simp: find_Some_iff)


text \<open>
  C1. Let every row index of every sheet state be in the dirty set that the dirty-row map
  holds for that sheet, and let every prior error be for a row the map marks. Then
  incremental validation and full validation settle alike, whatever the order in which
  the validator evaluations of either run resolve: both reject, or both resolve with the
  same set of errors (and the same number of copies of each).
\<close>

theorem incremental_all_dirty_same_errors:
  assumes ord: "rearranges ord1" "rearranges ord2"
    and all_dirty: "\<forall>st \<in> set states. \<exists>idx. map_of D (ss_sheetId st) = Some idx
                     \<and> (\<forall>i < length (ss_rows st). i \<in> set idx)"
    and covered: "\<forall>e \<in> set E. dirtyRowsMark D (ve_sheetId e) (ve_rowIndex e)"
  shows "(applyValidationsToSpecificRows ord1 d defs states E D = Rejected
            \<longleftrightarrow> applyValidations ord2 d defs states = Rejected)
       \<and> (\<forall>incremental full.
            applyValidationsToSpecificRows ord1 d defs states E D = Resolved incremental
            \<and> applyValidations ord2 d defs states = Resolved full
            \<longrightarrow> set incremental = set full \<and> mset incremental = mset full)"
proof -
  let ?inc = "\<lambda>sheetDefinition.
     case find (\<lambda>state. ss_sheetId state = sd_id sheetDefinition) states of
       None \<Rightarrow> Resolved []
     | Some found \<Rightarrow>
         (case map_of D (sd_id sheetDefinition) of
            None \<Rightarrow> Resolved []
          | Some dirtyRowIndices \<Rightarrow>
              if length dirtyRowIndices > 0 then
                validateSpecificRows ord1 d sheetDefinition found states dirtyRowIndices
              else Resolved [])"
  let ?full = "\<lambda>sheetDefinition.
     case find (\<lambda>state. ss_sheetId state = sd_id sheetDefinition) states of
       Some found \<Rightarrow> validateSheet ord2 d sheetDefinition found states
     | None \<Rightarrow> Resolved []"
  have each: "sameUpToOrder (?inc def) (?full def)" for def
  proof (cases "find (\<lambda>state. ss_sheetId state = sd_id def) states")
    case None
    then show ?thesis by (simp add: sameUpToOrder_def)
  next
    case (Some st)
    then have st: "st \<in> set states" "ss_sheetId st = sd_id def"
      using find_Some_sheet [of "sd_id def" states st] by simp_all
    from all_dirty st(1) have "\<exists>idx. map_of D (ss_sheetId st) = Some idx
        \<and> (\<forall>i < length (ss_rows st). i \<in> set idx)" by blast
    with st(2) obtain idx where idx: "map_of D (sd_id def) = Some idx"
      "\<forall>i < length (ss_rows st). i \<in> set idx" by auto
    show ?thesis
    proof (cases "idx = []")
      case True
      with idx(2) have "ss_rows st = []" by (cases "ss_rows st") auto
      with ord(2) have "validateSheet ord2 d def st states = Resolved []"
        by (simp add: validateSheet_no_rows)
      with Some idx(1) True show ?thesis by (simp add: sameUpToOrder_def)
    next
      case False
      have "sameUpToOrder (validateSheet ord1 d def st states) (validateSheet ord2 d def st states)"
        unfolding validateSheet_def Let_def using ord by (rule sameUpToOrder_joinEvaluations)
      with Some idx False show ?thesis by (simp add: validateSpecificRows_all_dirty)
    qed
  qed
  have "filter (\<lambda>e. \<not> dirtyRowsMark D (ve_sheetId e) (ve_rowIndex e)) E = []"
    using covered by (simp add: filter_empty_conv)
  then have inc: "applyValidationsToSpecificRows ord1 d defs states E D
      = (case promiseAll (map ?inc defs) of Rejected \<Rightarrow> Rejected | Resolved ys \<Rightarrow> Resolved (concat ys))"
    unfolding applyValidationsToSpecificRows_def newErrorsOfSpecificRows_def dirtyRowKeys_member
    by (cases "promiseAll (map ?inc defs)") simp_all
  have full: "applyValidations ord2 d defs states
      = (case promiseAll (map ?full defs) of Rejected \<Rightarrow> Rejected | Resolved ys \<Rightarrow> Resolved (concat ys))"
    by (simp add: applyValidations_def)
  have same: "sameUpToOrder (applyValidationsToSpecificRows ord1 d defs states E D)
          (applyValidations ord2 d defs states)"
    unfolding inc full using sameUpToOrder_promiseAll [of defs ?inc ?full] each by blast
  show ?thesis
  proof (cases "applyValidationsToSpecificRows ord1 d defs states E D")
    case Rejected
    with same show ?thesis by (simp add: sameUpToOrder_def)
  next
    case inc: (Resolved xs)
    show ?thesis
    proof (cases "applyValidations ord2 d defs states")
      case Rejected
      with inc same show ?thesis by (simp add: sameUpToOrder_def)
    next
      case (Resolved ys)
      with inc same have "mset xs = mset ys" by (simp add: sameUpToOrder_def)
      then have "set xs = set ys" by (rule mset_eq_setD)
      with inc Resolved \<open>mset xs = mset ys\<close> show ?thesis by simp
    qed
  qed
qed

theorem incremental_all_dirty_same_errors_witness:
  "rearranges rev \<and> rearranges id
   \<and> applyValidationsToSpecificRows rev specDeps [peopleSheet] [peopleState]
         [staleError, bobStaleError] [(''people'', [0, 1, 2, 5])]
       = Resolved [annStatusError, bobAgeError]
   \<and> applyValidations id specDeps [peopleSheet] [peopleState]
       = Resolved [bobAgeError, annStatusError]
   \<and> set [annStatusError, bobAgeError] = set [bobAgeError, annStatusError]"
proof -
  let ?D = "[(''people'', [0, 1, 2, 5::nat])]"
  let ?E = "[staleError, bobStaleError]"
  have o1: "rearranges rev" and o2: "rearranges id"
    by (simp_all add: rearranges_def)
  have dirty: "\<forall>st \<in> set [peopleState]. \<exists>idx. map_of ?D (ss_sheetId st) = Some idx
                     \<and> (\<forall>i < length (ss_rows st). i \<in> set idx)"
    by (simp add: peopleState_def peopleRows_def less_Suc_eq numeral_3_eq_3)
  have covered: "\<forall>e \<in> set ?E. dirtyRowsMark ?D (ve_sheetId e) (ve_rowIndex e)"
    by (simp add: dirtyRowsMark_def staleError_def bobStaleError_def)
  have inc: "applyValidationsToSpecificRows rev specDeps [peopleSheet] [peopleState] ?E ?D
       = Resolved [annStatusError, bobAgeError]"
    by (simp add: applyValidationsToSpecificRows_def dirtyRowKeys_member example_simps)
  have full: "applyValidations id specDeps [peopleSheet] [peopleState]
       = Resolved [bobAgeError, annStatusError]"
    by (simp add: example_simps)
  from incremental_all_dirty_same_errors [OF o1 o2 dirty covered, of specDeps "[peopleSheet]"]
    inc full
  have "set [annStatusError, bobAgeError] = set [bobAgeError, annStatusError]"
    by simp
  with o1 o2 inc full show ?thesis by simp
qed

section \<open>Incremental validation with nothing dirty\<close>

lemma all_sets_empty_unmarked:
  "\<forall>entry \<in> set D. snd entry = [] \<Longrightarrow> \<not> dirtyRowsMark D s i"
  by (auto simp: dirtyRowsMark_def list_ex_iff)

lemma newErrors_none_dirty:
  assumes "(\<forall>entry \<in> set D. snd entry = [])
         \<or> (\<forall>entry \<in> set D. fst entry \<notin> ss_sheetId ` set states)"
  shows "newErrorsOfSpecificRows ord d defs states D = Resolved (map (\<lambda>def. []) defs)"
proof -
  have "(case find (\<lambda>state. ss_sheetId state = sd_id def) states of
           None \<Rightarrow> Resolved []
         | Some found \<Rightarrow>
             (case map_of D (sd_id def) of
                None \<Rightarrow> Resolved []
              | Some dirtyRowIndices \<Rightarrow>
                  if length dirtyRowIndices > 0 then
                    validateSpecificRows ord d def found states dirtyRowIndices
                  else Resolved [])) = Resolved []" for def
  proof (cases "find (\<lambda>state. ss_sheetId state = sd_id def) states")
    case None
    then show ?thesis by simp
  next
    case (Some st)
    then have st: "st \<in> set states" "ss_sheetId st = sd_id def"
      using find_Some_sheet [of "sd_id def" states st] by simp_all
    show ?thesis
    proof (cases "map_of D (sd_id def)")
      case None
      with Some show ?thesis by simp
    next
      case (Some idx)
      then have mem: "(sd_id def, idx) \<in> set D" by (rule map_of_SomeD)
      from assms have "idx = []"
      proof
        assume "\<forall>entry \<in> set D. snd entry = []"
        with mem show ?thesis by force
      next
        assume "\<forall>entry \<in> set D. fst entry \<notin> ss_sheetId ` set states"
        with mem have "sd_id def \<notin> ss_sheetId ` set states" by force
        with st show ?thesis by force
      qed
      with Some \<open>find _ states = Some st\<close> show ?thesis by simp
    qed
  qed
  then show ?thesis
    by (simp add: newErrorsOfSpecificRows_def promiseAll_all_resolved)
qed

text \<open>
  C9 (as the code has it). When every per-sheet set of the dirty-row map is empty, or
  when the map names no sheet present in the states and marks no row of an error of
  \<open>E\<close>, no sheet is validated (every definition contributes the empty list, whatever
  the validators would do) and the result is \<open>E\<close>, element for element and in the
  same order.
\<close>
theorem nothing_dirty_keeps_errors:
  assumes "(\<forall>entry \<in> set D. snd entry = [])
         \<or> ((\<forall>entry \<in> set D. fst entry \<notin> ss_sheetId ` set states)
            \<and> (\<forall>e \<in> set E. \<not> dirtyRowsMark D (ve_sheetId e) (ve_rowIndex e)))"
  shows "newErrorsOfSpecificRows ord d defs states D = Resolved (map (\<lambda>def. []) defs)
       \<and> applyValidationsToSpecificRows ord d defs states E D = Resolved E"
proof -
  from assms have new: "newErrorsOfSpecificRows ord d defs states D = Resolved (map (\<lambda>def. []) defs)"
    by (intro newErrors_none_dirty) blast
  from assms have "\<forall>e \<in> set E. \<not> dirtyRowsMark D (ve_sheetId e) (ve_rowIndex e)"
    using all_sets_empty_unmarked [of D] by blast
  then have "filter (\<lambda>e. \<not> dirtyRowsMark D (ve_sheetId e) (ve_rowIndex e)) E = E"
    by simp
  with new show ?thesis
    by (simp add: applyValidationsToSpecificRows_def dirtyRowKeys_member concat_map_Nil)
qed

theorem nothing_dirty_keeps_errors_witness:
  "applyValidationsToSpecificRows id failingDeps [peopleSheet] [peopleState]
      [staleError, bobStaleError] [(''people'', [])]
     = Resolved [staleError, bobStaleError]
   \<and> applyValidationsToSpecificRows id failingDeps [peopleSheet] [peopleState]
      [staleError, bobStaleError] [(''archive'', [0])]
     = Resolved [staleError, bobStaleError]"
  using nothing_dirty_keeps_errors [of "[(''people'', [])]" "[peopleState]"
      "[staleError, bobStaleError]" id failingDeps "[peopleSheet]"]
    nothing_dirty_keeps_errors [of "[(''archive'', [0])]" "[peopleState]"
      "[staleError, bobStaleError]" id failingDeps "[peopleSheet]"]
  by (simp add: dirtyRowsMark_def peopleState_def staleError_def bobStaleError_def)

text \<open>
  C9 as stated fails for a dirty-row map that names no sheet present in the states: the
  merge still drops the prior errors of the rows it marks.
\<close>

theorem nothing_dirty_counterexample:
  "''archive'' \<notin> ss_sheetId ` set [peopleState]
   \<and> applyValidationsToSpecificRows id specDeps [peopleSheet, archiveSheet] [peopleState]
        [archiveError] [(''archive'', [0])] = Resolved []
   \<and> applyValidationsToSpecificRows id specDeps [peopleSheet, archiveSheet] [peopleState]
        [archiveError] [(''archive'', [0])] \<noteq> Resolved [archiveError]"
  by (simp add: applyValidationsToSpecificRows_def dirtyRowKeys_member dirtyRowsMark_def
      archiveError_def newErrorsOfSpecificRows_def peopleState_def peopleSheet_def
      archiveSheet_def)

section \<open>Full validation of a sheet\<close>

lemma foldl_update_other:
  "k \<notin> key ` set xs \<Longrightarrow> foldl (\<lambda>obj x. obj(key x \<mapsto> f x)) m xs k = m k"
proof (induction xs arbitrary: m)
  case Nil
  show ?case by (simp only: foldl_Nil)
next
  case (Cons y ys)
  then have "k \<notin> key ` set ys" and "k \<noteq> key y" by auto
  then have "foldl (\<lambda>obj x. obj(key x \<mapsto> f x)) (m(key y \<mapsto> f y)) ys k
      = (m(key y \<mapsto> f y)) k"
    by (intro Cons.IH)
  also have "\<dots> = m k" using \<open>k \<noteq> key y\<close> by simp
  finally have "foldl (\<lambda>obj x. obj(key x \<mapsto> f x)) (m(key y \<mapsto> f y)) ys k = m k" .
  then show ?case by (simp only: foldl_Cons)
qed

lemma foldl_update_distinct:
  "distinct (map key xs) \<Longrightarrow> x \<in> set xs
     \<Longrightarrow> foldl (\<lambda>obj x. obj(key x \<mapsto> f x)) m xs (key x) = Some (f x)"
proof (induction xs arbitrary: m)
  case Nil
  then show ?case by simp
next
  case (Cons y ys)
  have step: "foldl (\<lambda>obj x. obj(key x \<mapsto> f x)) m (y # ys)
      = foldl (\<lambda>obj x. obj(key x \<mapsto> f x)) (m(key y \<mapsto> f y)) ys"
    by (simp only: foldl_Cons)
  show ?case
  proof (cases "x = y")
    case True
    from Cons.prems have "key y \<notin> key ` set ys" by auto
    then have "foldl (\<lambda>obj x. obj(key x \<mapsto> f x)) (m(key y \<mapsto> f y)) ys (key y)
        = (m(key y \<mapsto> f y)) (key y)"
      by (rule foldl_update_other)
    also have "\<dots> = Some (f y)" by (simp only: fun_upd_same)
    finally show ?thesis unfolding step True .
  next
    case False
    with Cons.prems have "distinct (map key ys)" "x \<in> set ys" by auto
    then have "foldl (\<lambda>obj x. obj(key x \<mapsto> f x)) (m(key y \<mapsto> f y)) ys (key x) = Some (f x)"
      by (rule Cons.IH)
    then show ?thesis unfolding step .
  qed
qed

lemma validatorsByColumnId_distinct:
  assumes "distinct (map cd_id (sd_columns def))" "c \<in> set (sd_columns def)"
  shows "validatorsByColumnId d def all (cd_id c) = Some (effectiveValidators d c all)"
  using foldl_update_distinct [OF assms, of
      "\<lambda>c. map (buildValidatorFromDefinition d)
             (explicitValidators c @ automaticFieldValidators d c all)" Map.empty]
  by (simp add: validatorsByColumnId_def eachWithObject_def effectiveValidators_def)

lemma launchCell_spec:
  assumes "byId (cd_id c) = Some (effectiveValidators d c all)"
  shows "launchCell d byId c ir
       = (if hasData d (snd ir) then specCellEvaluations d all (fst ir) (snd ir) c else [])"
  using assms by (cases ir) (simp add: launchCell_def specCellEvaluations_def)

lemma mset_concat_append_pointwise:
  "mset (concat (map (\<lambda>y. f y @ g y) ys))
     = mset (concat (map f ys)) + mset (concat (map g ys))"
  by (induction ys) simp_all

lemma mset_concat_swap:
  "mset (concat (map (\<lambda>x. concat (map (\<lambda>y. f x y) ys)) xs))
     = mset (concat (map (\<lambda>y. concat (map (\<lambda>x. f x y) xs)) ys))"
proof (induction xs)
  case Nil
  show ?case by (simp add: concat_map_Nil)
next
  case (Cons x xs)
  have "mset (concat (map (\<lambda>y. concat (map (\<lambda>x. f x y) (x # xs))) ys))
      = mset (concat (map (\<lambda>y. f x y @ concat (map (\<lambda>x. f x y) xs)) ys))"
    by simp
  also have "\<dots> = mset (concat (map (f x) ys))
                  + mset (concat (map (\<lambda>y. concat (map (\<lambda>x. f x y) xs)) ys))"
    by (rule mset_concat_append_pointwise)
  finally show ?case using Cons by simp
qed

lemma launched_mset_spec:
  assumes "distinct (map cd_id (sd_columns def))"
  shows "mset (concat (map (\<lambda>c. concat (map (launchCell d (validatorsByColumnId d def all) c)
                                        (enumerate 0 rows)))
                        (sd_columns def)))
       = mset (concat (map (specRowEvaluations d def all) (enumerate 0 rows)))"
proof -
  let ?F = "\<lambda>c ir. if hasData d (snd ir) then specCellEvaluations d all (fst ir) (snd ir) c else []"
  have code: "map (\<lambda>c. concat (map (launchCell d (validatorsByColumnId d def all) c) (enumerate 0 rows)))
          (sd_columns def)
      = map (\<lambda>c. concat (map (\<lambda>ir. ?F c ir) (enumerate 0 rows))) (sd_columns def)"
  proof (rule map_cong [OF refl])
    fix c assume "c \<in> set (sd_columns def)"
    with assms have "validatorsByColumnId d def all (cd_id c) = Some (effectiveValidators d c all)"
      by (rule validatorsByColumnId_distinct)
    then have "launchCell d (validatorsByColumnId d def all) c = ?F c"
      by (intro ext launchCell_spec)
    then show "concat (map (launchCell d (validatorsByColumnId d def all) c) (enumerate 0 rows))
             = concat (map (\<lambda>ir. ?F c ir) (enumerate 0 rows))" by simp
  qed
  have spec: "specRowEvaluations d def all = (\<lambda>ir. concat (map (\<lambda>c. ?F c ir) (sd_columns def)))"
    by (rule ext) (simp add: specRowEvaluations_def concat_map_Nil)
  have "mset (concat (map (\<lambda>c. concat (map (launchCell d (validatorsByColumnId d def all) c)
                                        (enumerate 0 rows)))
                        (sd_columns def)))
      = mset (concat (map (\<lambda>c. concat (map (\<lambda>ir. ?F c ir) (enumerate 0 rows))) (sd_columns def)))"
    by (simp only: code)
  also have "\<dots> = mset (concat (map (\<lambda>ir. concat (map (\<lambda>c. ?F c ir) (sd_columns def)))
                                 (enumerate 0 rows)))"
    by (rule mset_concat_swap)
  also have "\<dots> = mset (concat (map (specRowEvaluations d def all) (enumerate 0 rows)))"
    by (simp only: spec)
  finally show ?thesis .
qed

lemma validateSheet_join_spec:
  assumes "rearranges ord" "distinct (map cd_id (sd_columns def))"
  shows "sameUpToOrder (validateSheet ord d def data all)
           (joinEvaluations id (sd_id def) (specSheetEvaluations d def data all))"
proof -
  let ?code = "concat (map (\<lambda>c. concat (map (launchCell d (validatorsByColumnId d def all) c)
                                        (enumerate 0 (ss_rows data))))
                        (sd_columns def))"
  let ?spec = "specSheetEvaluations d def data all"
  have m: "mset ?code = mset ?spec"
    unfolding specSheetEvaluations_def using assms(2) by (rule launched_mset_spec)
  then have "set ?code = set ?spec" by (rule mset_eq_setD)
  then have rej: "list_ex (\<lambda>e. ev_result e = Rejected) ?code
               \<longleftrightarrow> list_ex (\<lambda>e. ev_result e = Rejected) ?spec"
    by (simp add: list_ex_iff)
  from assms(1) m have "mset (ord ?code) = mset ?spec" by (simp add: rearranges_def)
  then have "mset (concat (map (pushError (sd_id def)) (ord ?code)))
           = mset (concat (map (pushError (sd_id def)) ?spec))"
    by (rule mset_concat_map_cong)
  with rej show ?thesis
    by (simp add: validateSheet_def joinEvaluations_def sameUpToOrder_def)
qed

lemma specCell_fields:
  "e \<in> set (specCellEvaluations d all j r c) \<Longrightarrow> ev_columnId e = cd_id c \<and> ev_rowIndex e = j"
  by (auto simp: specCellEvaluations_def split: if_splits)

lemma specRow_rowIndex:
  "e \<in> set (specRowEvaluations d def all ir) \<Longrightarrow> ev_rowIndex e = fst ir"
  by (auto simp: specRowEvaluations_def dest: specCell_fields split: if_splits)

lemma filter_rowIndex_specRow:
  "filter (\<lambda>e. ev_rowIndex e = i) (specRowEvaluations d def all ir)
     = (if fst ir = i then specRowEvaluations d def all ir else [])"
proof (cases "fst ir = i")
  case True
  then have "\<forall>e \<in> set (specRowEvaluations d def all ir). ev_rowIndex e = i"
    by (auto dest: specRow_rowIndex)
  with True show ?thesis by (simp add: filter_id_conv)
next
  case False
  then have "\<forall>e \<in> set (specRowEvaluations d def all ir). ev_rowIndex e \<noteq> i"
    by (auto dest: specRow_rowIndex)
  with False show ?thesis by (simp add: filter_empty_conv)
qed

lemma filter_rowIndex_enumerate:
  "filter (\<lambda>e. ev_rowIndex e = i)
     (concat (map (specRowEvaluations d def all) (enumerate n rows)))
   = (if n \<le> i \<and> i < n + length rows
      then specRowEvaluations d def all (i, rows ! (i - n)) else [])"
proof (induction rows arbitrary: n)
  case Nil
  show ?case by auto
next
  case (Cons r rows)
  have "filter (\<lambda>e. ev_rowIndex e = i)
          (concat (map (specRowEvaluations d def all) (enumerate n (r # rows))))
      = (if n = i then specRowEvaluations d def all (n, r) else [])
        @ (if Suc n \<le> i \<and> i < Suc n + length rows
           then specRowEvaluations d def all (i, rows ! (i - Suc n)) else [])"
    using Cons.IH [of "Suc n"] by (simp add: filter_rowIndex_specRow)
  also have "\<dots> = (if n \<le> i \<and> i < n + length (r # rows)
      then specRowEvaluations d def all (i, (r # rows) ! (i - n)) else [])"
  proof (cases "n = i")
    case True
    then show ?thesis by simp
  next
    case False
    show ?thesis
    proof (cases "Suc n \<le> i \<and> i < Suc n + length rows")
      case True
      then have "i - n = Suc (i - Suc n)" by arith
      with True False show ?thesis by simp
    next
      case no: False
      with False have "\<not> (n \<le> i \<and> i < n + length (r # rows))" by auto
      with no False show ?thesis by auto
    qed
  qed
  finally show ?case .
qed

lemma filter_columnId_specCells:
  assumes "distinct (map cd_id cols)" "c \<in> set cols"
  shows "filter (\<lambda>e. ev_columnId e = cd_id c) (concat (map (specCellEvaluations d all i r) cols))
       = specCellEvaluations d all i r c"
  using assms
proof (induction cols)
  case Nil
  then show ?case by simp
next
  case (Cons c' cols)
  have same: "filter (\<lambda>e. ev_columnId e = cd_id x) (specCellEvaluations d all i r x)
      = specCellEvaluations d all i r x" for x
    by (auto simp: filter_id_conv dest: specCell_fields)
  have other: "cd_id x \<noteq> cd_id c
      \<Longrightarrow> filter (\<lambda>e. ev_columnId e = cd_id c) (specCellEvaluations d all i r x) = []" for x
    by (auto simp: filter_empty_conv dest: specCell_fields)
  show ?case
  proof (cases "c = c'")
    case True
    from Cons.prems have "cd_id c' \<notin> cd_id ` set cols" by simp
    then have "\<forall>x \<in> set cols. cd_id x \<noteq> cd_id c'" by (metis imageI)
    with True have "\<forall>x \<in> set cols. cd_id x \<noteq> cd_id c" by simp
    then have "filter (\<lambda>e. ev_columnId e = cd_id c)
                 (concat (map (specCellEvaluations d all i r) cols)) = []"
      by (induction cols) (simp_all add: other)
    with True same [of c] show ?thesis by simp
  next
    case False
    with Cons.prems have "c \<in> set cols" "cd_id c' \<noteq> cd_id c" "distinct (map cd_id cols)"
      by auto
    with Cons.IH other [of c'] show ?thesis by simp
  qed
qed

lemma filter_pushError:
  "filter (\<lambda>e. ve_columnId e = k \<and> ve_rowIndex e = i) (concat (map (pushError s) evs))
     = concat (map (pushError s) (filter (\<lambda>e. ev_columnId e = k \<and> ev_rowIndex e = i) evs))"
  by (induction evs) (auto simp: pushError_def split: promise.splits option.splits)

lemma spec_errors_of_cell:
  assumes "distinct (map cd_id (sd_columns def))" "c \<in> set (sd_columns def)"
    and "i < length (ss_rows data)" "hasData d (ss_rows data ! i)"
  shows "filter (\<lambda>e. ve_columnId e = cd_id c \<and> ve_rowIndex e = i)
           (concat (map (pushError (sd_id def)) (specSheetEvaluations d def data all)))
       = concat (map (pushError (sd_id def))
           (specCellEvaluations d all i (ss_rows data ! i) c))"
proof -
  have "filter (\<lambda>e. ev_columnId e = cd_id c \<and> ev_rowIndex e = i)
          (specSheetEvaluations d def data all)
      = filter (\<lambda>e. ev_columnId e = cd_id c)
          (filter (\<lambda>e. ev_rowIndex e = i) (specSheetEvaluations d def data all))"
    by (simp add: conj_commute)
  also have "\<dots> = filter (\<lambda>e. ev_columnId e = cd_id c)
                     (specRowEvaluations d def all (i, ss_rows data ! i))"
    using assms(3) by (simp add: specSheetEvaluations_def filter_rowIndex_enumerate)
  also have "\<dots> = specCellEvaluations d all i (ss_rows data ! i) c"
    using assms(4) filter_columnId_specCells [OF assms(1,2)]
    by (simp add: specRowEvaluations_def)
  finally show ?thesis by (simp add: filter_pushError)
qed

lemma required_only_effective:
  assumes "explicitValidators c @ automaticFieldValidators d c all = [vd]"
    and "vd_validate vd = ''required''"
  shows "fieldIsRequired c (Some True)
       \<and> effectiveValidators d c all = [buildValidatorFromDefinition d vd]"
proof -
  have "vd \<notin> set (automaticFieldValidators d c all)"
    using assms(2) by (auto simp: automaticFieldValidators_def split: column_type.splits)
  with assms(1) have "explicitValidators c = [vd]"
    by (cases "explicitValidators c") (auto simp: Cons_eq_append_conv)
  then have "cd_validators c = Some [vd]"
    by (simp add: explicitValidators_def split: option.splits)
  with assms show ?thesis
    by (simp add: fieldIsRequired_def effectiveValidators_def)
qed

text \<open>
  C6 (as the code has it). For a sheet whose column ids are distinct and any resolution order,
  \<open>validateSheet\<close> settles as the specification's double loop does: it rejects exactly
  when one of the evaluations that loop runs rejects, and otherwise its errors are, up to
  order, one error per evaluation of that loop that yields a message: rows without data
  contribute nothing, a column is skipped exactly when its id is absent from the row (it
  names neither a property of the row nor one every row inherits) and
  \<open>fieldIsRequired\<close> with \<open>skipConditionCheck: true\<close> is false, and otherwise every
  validator of the column runs on the cell value and the full row. In particular a
  column whose only validator is \<open>required\<close>, absent from a row that has data, yields
  exactly one error for that sheet, column and row, carrying the message of the
  \<open>required\<close> validator.
\<close>

theorem validateSheet_follows_specification:
  assumes "rearranges ord" and "distinct (map cd_id (sd_columns def))"
  shows "(validateSheet ord d def data all = Rejected
            \<longleftrightarrow> list_ex (\<lambda>e. ev_result e = Rejected) (specSheetEvaluations d def data all))
       \<and> (\<forall>errs. validateSheet ord d def data all = Resolved errs
            \<longrightarrow> mset errs
                = mset (concat (map (pushError (sd_id def))
                                  (specSheetEvaluations d def data all))))
       \<and> (\<forall>errs c vd i msg.
             validateSheet ord d def data all = Resolved errs
             \<and> c \<in> set (sd_columns def)
             \<and> explicitValidators c @ automaticFieldValidators d c all = [vd]
             \<and> vd_validate vd = ''required''
             \<and> i < length (ss_rows data)
             \<and> hasData d (ss_rows data ! i)
             \<and> \<not> inRow (cd_id c) (ss_rows data ! i)
             \<and> buildValidatorFromDefinition d vd Undefined (ss_rows data ! i)
                 = Resolved (Some msg)
            \<longrightarrow> filter (\<lambda>e. ve_columnId e = cd_id c \<and> ve_rowIndex e = i) errs
                = [\<lparr>ve_sheetId = sd_id def, ve_columnId = cd_id c, ve_rowIndex = i,
                    ve_message = msg\<rparr>])"
proof -
  let ?spec = "specSheetEvaluations d def data all"
  let ?errors = "concat (map (pushError (sd_id def)) ?spec)"
  have same: "sameUpToOrder (validateSheet ord d def data all)
                (joinEvaluations id (sd_id def) ?spec)"
    using assms by (rule validateSheet_join_spec)
  have rejects: "validateSheet ord d def data all = Rejected
      \<longleftrightarrow> list_ex (\<lambda>e. ev_result e = Rejected) ?spec"
    using same by (auto simp: sameUpToOrder_def joinEvaluations_def split: promise.splits if_splits)
  have resolves: "mset errs = mset ?errors"
    if "validateSheet ord d def data all = Resolved errs" for errs
    using same that by (auto simp: sameUpToOrder_def joinEvaluations_def split: promise.splits if_splits)
  have scenario: "filter (\<lambda>e. ve_columnId e = cd_id c \<and> ve_rowIndex e = i) errs
        = [\<lparr>ve_sheetId = sd_id def, ve_columnId = cd_id c, ve_rowIndex = i, ve_message = msg\<rparr>]"
    if run: "validateSheet ord d def data all = Resolved errs"
      and c: "c \<in> set (sd_columns def)"
      and only: "explicitValidators c @ automaticFieldValidators d c all = [vd]"
      and req: "vd_validate vd = ''required''"
      and i: "i < length (ss_rows data)"
      and data: "hasData d (ss_rows data ! i)"
      and absent: "\<not> inRow (cd_id c) (ss_rows data ! i)"
      and msg: "buildValidatorFromDefinition d vd Undefined (ss_rows data ! i) = Resolved (Some msg)"
    for errs c vd i msg
  proof -
    let ?P = "\<lambda>e. ve_columnId e = cd_id c \<and> ve_rowIndex e = i"
    let ?expected = "\<lparr>ve_sheetId = sd_id def, ve_columnId = cd_id c, ve_rowIndex = i,
                       ve_message = msg\<rparr>"
    from only req have eff: "fieldIsRequired c (Some True)"
      "effectiveValidators d c all = [buildValidatorFromDefinition d vd]"
      using required_only_effective [of c d all vd] by simp_all
    from absent have "getCell (ss_rows data ! i) (cd_id c) = Undefined"
      by (simp add: inRow_def getCell_def)
    with eff msg have "concat (map (pushError (sd_id def))
        (specCellEvaluations d all i (ss_rows data ! i) c)) = [?expected]"
      by (simp add: specCellEvaluations_def pushError_def)
    with assms(2) c i data have spec: "filter ?P ?errors = [?expected]"
      by (simp add: spec_errors_of_cell)
    from resolves [OF run] have "mset (filter ?P errs) = mset (filter ?P ?errors)"
      by simp
    also have "\<dots> = {#?expected#}" by (simp only: spec mset.simps)
    finally show ?thesis by (simp only: mset_single_iff)
  qed
  from rejects resolves scenario show ?thesis by blast
qed

theorem validateSheet_follows_specification_witness:
  "rearranges rev
   \<and> distinct (map cd_id (sd_columns peopleSheet))
   \<and> validateSheet rev specDeps peopleSheet peopleState [peopleState]
       = Resolved [annStatusError, bobAgeError]
   \<and> hasData specDeps (ss_rows peopleState ! 1)
   \<and> \<not> inRow ''age'' (ss_rows peopleState ! 1)
   \<and> filter (\<lambda>e. ve_columnId e = ''age'' \<and> ve_rowIndex e = 1) [annStatusError, bobAgeError]
       = [bobAgeError]"
proof -
  let ?age = "\<lparr>cd_id = ''age'', cd_type = TNumber, cd_validators = Some [requiredWhen None],
               cd_transformers = None\<rparr>"
  have ord: "rearranges rev" by (simp add: rearranges_def)
  have ids: "distinct (map cd_id (sd_columns peopleSheet))" by (simp add: peopleSheet_def)
  have run: "validateSheet rev specDeps peopleSheet peopleState [peopleState]
       = Resolved [annStatusError, bobAgeError]"
    by (simp add: example_simps)
  have col: "?age \<in> set (sd_columns peopleSheet)" by (simp add: peopleSheet_def)
  have only: "explicitValidators ?age @ automaticFieldValidators specDeps ?age [peopleState]
      = [requiredWhen None]"
    by (simp add: explicitValidators_def automaticFieldValidators_def)
  have tag: "vd_validate (requiredWhen None) = ''required''" by (simp add: requiredWhen_def)
  have i: "1 < length (ss_rows peopleState)" by (simp add: peopleState_def peopleRows_def)
  have data: "hasData specDeps (ss_rows peopleState ! 1)"
    by (simp add: peopleState_def peopleRows_def specDeps_def specHasData_def specIsEmptyCell_def)
  have absent: "\<not> inRow (cd_id ?age) (ss_rows peopleState ! 1)"
    by (simp add: peopleState_def peopleRows_def inRow_def objectPrototypeKeys_def)
  have msg: "buildValidatorFromDefinition specDeps (requiredWhen None) Undefined
               (ss_rows peopleState ! 1) = Resolved (Some ''required'')"
    by (simp add: specDeps_def specBuildValidatorFromDefinition_def requiredWhen_def
        specIsEmptyCell_def)
  from validateSheet_follows_specification [OF ord ids, of specDeps peopleState "[peopleState]"]
    run col only tag i data absent msg
  have "filter (\<lambda>e. ve_columnId e = cd_id ?age \<and> ve_rowIndex e = 1) [annStatusError, bobAgeError]
      = [\<lparr>ve_sheetId = sd_id peopleSheet, ve_columnId = cd_id ?age, ve_rowIndex = 1,
          ve_message = ''required''\<rparr>]"
    by blast
  then have "filter (\<lambda>e. ve_columnId e = ''age'' \<and> ve_rowIndex e = 1) [annStatusError, bobAgeError]
      = [bobAgeError]"
    by (simp add: bobAgeError_def peopleSheet_def)
  with ord ids run data absent show ?thesis by simp
qed

text \<open>
  C6 as stated fails when two columns of a sheet share an id: the table of validators
  holds one entry per id, that of the last such column. In the example the first column
  is required and absent from a row that has data, the \<open>required\<close> validator would
  report the absent cell, and yet no error results, because for both columns the (empty)
  validator list of the second one is run.
\<close>

theorem validateSheet_counterexample:
  "fieldIsRequired echoRequired (Some True)
   \<and> echoRequired \<in> set (sd_columns echoSheet)
   \<and> hasData specDeps (ss_rows echoState ! 1)
   \<and> \<not> inRow (cd_id echoRequired) (ss_rows echoState ! 1)
   \<and> buildValidatorFromDefinition specDeps (requiredWhen None) Undefined
         (ss_rows echoState ! 1) = Resolved (Some ''required'')
   \<and> validateSheet id specDeps echoSheet echoState [echoState] = Resolved []"
  by (simp add: example_simps echoRequired_def echoPlain_def echoSheet_def echoState_def
      customTransformer_def)

section \<open>Automatic validators\<close>

lemma set_specExtract:
  assumes "cd_type c = TReference args"
  shows "distinct (specExtractReferenceColumnPossibleValues c all)
       \<and> set (specExtractReferenceColumnPossibleValues c all)
         = {v. \<not> specIsEmptyCell v
              \<and> (\<exists>sheet \<in> set all. ss_sheetId sheet = ra_sheetId args
                   \<and> (\<exists>row \<in> set (ss_rows sheet). getCell row (ra_sheetColumnId args) = v))}"
  using assms by (auto simp: specExtractReferenceColumnPossibleValues_def split: if_splits)

text \<open>
  C7. A column of type \<open>enum\<close> automatically receives exactly one \<open>includes\<close>
  definition whose values are the declared enumeration's values; the validator built from
  it accepts every declared value and rejects every other value. A column of type
  \<open>reference\<close> receives exactly one \<open>includes\<close> definition whose values are what
  \<open>extractReferenceColumnPossibleValues\<close> yields for the sheets passed to this call:
  the distinct present values of the referenced column across all sheets. Other types
  receive no automatic validator.
\<close>
theorem automatic_validators_of_enum_and_reference:
  "(cd_type c = TEnum vals \<longrightarrow>
      automaticFieldValidators d c all
        = [\<lparr>vd_validate = ''includes'', vd_values = Some (map eo_value vals), vd_when = None\<rparr>]
      \<and> (\<forall>included \<in> set (automaticFieldValidators d c all). \<forall>v row.
            specBuildValidatorFromDefinition included v row
              = (if v \<in> eo_value ` set vals then Resolved None
                 else Resolved (Some ''includes''))))
   \<and> (cd_type c = TReference args \<longrightarrow>
      automaticFieldValidators d c all
        = [\<lparr>vd_validate = ''includes'',
            vd_values = Some (extractReferenceColumnPossibleValues d c all), vd_when = None\<rparr>]
      \<and> distinct (extractReferenceColumnPossibleValues specDeps c all)
      \<and> set (extractReferenceColumnPossibleValues specDeps c all)
          = {v. \<not> specIsEmptyCell v
               \<and> (\<exists>sheet \<in> set all. ss_sheetId sheet = ra_sheetId args
                    \<and> (\<exists>row \<in> set (ss_rows sheet).
                          getCell row (ra_sheetColumnId args) = v))})
   \<and> ((\<forall>vs. cd_type c \<noteq> TEnum vs) \<and> (\<forall>a. cd_type c \<noteq> TReference a) \<longrightarrow>
      automaticFieldValidators d c all = [])"
proof (intro conjI impI)
  assume "cd_type c = TEnum vals"
  then show "automaticFieldValidators d c all
        = [\<lparr>vd_validate = ''includes'', vd_values = Some (map eo_value vals), vd_when = None\<rparr>]"
    by (simp add: automaticFieldValidators_def)
  then show "\<forall>included \<in> set (automaticFieldValidators d c all). \<forall>v row.
            specBuildValidatorFromDefinition included v row
              = (if v \<in> eo_value ` set vals then Resolved None
                 else Resolved (Some ''includes''))"
    by (simp add: specBuildValidatorFromDefinition_def)
next
  assume ref: "cd_type c = TReference args"
  then show "automaticFieldValidators d c all
        = [\<lparr>vd_validate = ''includes'',
            vd_values = Some (extractReferenceColumnPossibleValues d c all), vd_when = None\<rparr>]"
    by (simp add: automaticFieldValidators_def)
  from ref show "distinct (extractReferenceColumnPossibleValues specDeps c all)"
    using set_specExtract [of c args all] by (simp add: specDeps_def)
  from ref show "set (extractReferenceColumnPossibleValues specDeps c all)
          = {v. \<not> specIsEmptyCell v
               \<and> (\<exists>sheet \<in> set all. ss_sheetId sheet = ra_sheetId args
                    \<and> (\<exists>row \<in> set (ss_rows sheet).
                          getCell row (ra_sheetColumnId args) = v))}"
    using set_specExtract [of c args all] by (simp add: specDeps_def)
next
  assume "(\<forall>vs. cd_type c \<noteq> TEnum vs) \<and> (\<forall>a. cd_type c \<noteq> TReference a)"
  then show "automaticFieldValidators d c all = []"
    by (cases "cd_type c") (simp_all add: automaticFieldValidators_def)
qed

theorem automatic_validators_of_enum_and_reference_witness:
  "automaticFieldValidators specDeps statusColumn [peopleState]
     = [\<lparr>vd_validate = ''includes'', vd_values = Some [Str ''active'', Str ''inactive''],
         vd_when = None\<rparr>]
   \<and> specBuildValidatorFromDefinition
        \<lparr>vd_validate = ''includes'', vd_values = Some [Str ''active'', Str ''inactive''],
         vd_when = None\<rparr> (Str ''pending'') [(''status'', Str ''pending'')]
       = Resolved (Some ''includes'')
   \<and> specBuildValidatorFromDefinition
        \<lparr>vd_validate = ''includes'', vd_values = Some [Str ''active'', Str ''inactive''],
         vd_when = None\<rparr> (Str ''active'') [(''status'', Str ''active'')]
       = Resolved None
   \<and> set (extractReferenceColumnPossibleValues specDeps ownerColumn [peopleState, petsState])
       = {Str ''Ann'', Str ''Bob''}
   \<and> applyValidations id specDeps [petsSheet] [peopleState, petsState]
       = Resolved [carlOwnerError]
   \<and> applyValidations id specDeps [petsSheet] [morePeopleState, petsState] = Resolved []"
proof -
  let ?ref = "\<lparr>ra_sheetId = ''people'', ra_sheetColumnId = ''name''\<rparr>"
  let ?vals = "[\<lparr>eo_label = ''Active'', eo_value = Str ''active''\<rparr>,
                \<lparr>eo_label = ''Inactive'', eo_value = Str ''inactive''\<rparr>]"
  have enum: "cd_type statusColumn = TEnum ?vals" by (simp add: statusColumn_def)
  have ref: "cd_type ownerColumn = TReference ?ref" by (simp add: ownerColumn_def)
  from automatic_validators_of_enum_and_reference
         [of statusColumn ?vals specDeps "[peopleState]" ?ref] enum
  have auto: "automaticFieldValidators specDeps statusColumn [peopleState]
     = [\<lparr>vd_validate = ''includes'', vd_values = Some [Str ''active'', Str ''inactive''],
         vd_when = None\<rparr>]"
    and built: "\<forall>v row. specBuildValidatorFromDefinition
        \<lparr>vd_validate = ''includes'', vd_values = Some [Str ''active'', Str ''inactive''],
         vd_when = None\<rparr> v row
       = (if v \<in> eo_value ` set ?vals then Resolved None else Resolved (Some ''includes''))"
    by simp_all
  from automatic_validators_of_enum_and_reference
         [of ownerColumn ?vals specDeps "[peopleState, petsState]" ?ref] ref
  have "set (extractReferenceColumnPossibleValues specDeps ownerColumn [peopleState, petsState])
      = {v. \<not> specIsEmptyCell v
               \<and> (\<exists>sheet \<in> set [peopleState, petsState]. ss_sheetId sheet = ra_sheetId ?ref
                    \<and> (\<exists>row \<in> set (ss_rows sheet).
                          getCell row (ra_sheetColumnId ?ref) = v))}"
    by simp
  also have "\<dots> = {Str ''Ann'', Str ''Bob''}"
    by (auto simp: peopleState_def petsState_def peopleRows_def getCell_def specIsEmptyCell_def
        objectPrototypeKeys_def)
  finally have vals: "set (extractReferenceColumnPossibleValues specDeps ownerColumn
      [peopleState, petsState]) = {Str ''Ann'', Str ''Bob''}" .
  have before: "applyValidations id specDeps [petsSheet] [peopleState, petsState]
       = Resolved [carlOwnerError]"
    by (simp add: example_simps petsSheet_def petsState_def ownerColumn_def carlOwnerError_def
        specExtractReferenceColumnPossibleValues_def)
  have after: "applyValidations id specDeps [petsSheet] [morePeopleState, petsState] = Resolved []"
    by (simp add: example_simps petsSheet_def petsState_def ownerColumn_def morePeopleState_def
        specExtractReferenceColumnPossibleValues_def)
  from auto built vals before after show ?thesis by simp
qed

section \<open>Transformation of a single row\<close>















section \<open>Initial state\<close>

text \<open>
  C10. \<open>buildInitialState\<close> throws for the empty list of sheet definitions. For a
  non-empty list it returns a state with mode \<open>upload\<close>, no validation errors,
  \<open>validationInProgress\<close> false, \<open>importProgress\<close> 0, the id of the first definition as
  \<open>currentSheetId\<close>, and one sheet state per definition, in definition order, each without
  rows; and \<open>buildState\<close> returns this state whenever persistence is disabled or loading
  the persisted state fails.
\<close>

theorem buildInitialState_well_defined:
  "buildInitialState [] = Inl TypeError
   \<and> (\<exists>s. buildInitialState (first # rest) = Inr s
          \<and> sheetDefinitions s = first # rest
          \<and> mode s = ModeUpload
          \<and> validationErrors s = []
          \<and> validationInProgress s = Some False
          \<and> importProgress s = 0
          \<and> currentSheetId s = sd_id first
          \<and> length (sheetData s) = length (first # rest)
          \<and> map ss_sheetId (sheetData s) = map sd_id (first # rest)
          \<and> (\<forall>st \<in> set (sheetData s). ss_rows st = [])
          \<and> (\<not> pc_enabled persistenceConfig
               \<or> getIndexedDBState store (first # rest) (pc_customKey persistenceConfig) = Rejected
              \<longrightarrow> buildState store (first # rest) persistenceConfig = Inr s))"
proof -
  obtain s where s: "buildInitialState (first # rest) = Inr s"
    by (simp add: buildInitialState_def)
  then have fields: "sheetDefinitions s = first # rest" "mode s = ModeUpload"
    "validationErrors s = []" "validationInProgress s = Some False" "importProgress s = 0"
    "currentSheetId s = sd_id first"
    "sheetData s = map (\<lambda>sheet. \<lparr>ss_sheetId = sd_id sheet, ss_rows = []\<rparr>) (first # rest)"
    by (auto simp: buildInitialState_def)
  from fields(7) have sheets: "length (sheetData s) = length (first # rest)"
    "map ss_sheetId (sheetData s) = map sd_id (first # rest)"
    "\<forall>st \<in> set (sheetData s). ss_rows st = []"
    by auto
  have "buildState store (first # rest) persistenceConfig = Inr s"
    if "\<not> pc_enabled persistenceConfig
        \<or> getIndexedDBState store (first # rest) (pc_customKey persistenceConfig) = Rejected"
    using that s by (auto simp: buildState_def buildStateWithIndexedDB_def)
  with s fields(1-6) sheets show ?thesis
    by (simp add: buildInitialState_def)
qed

theorem buildInitialState_well_defined_witness:
  "buildInitialState [peopleSheet, petsSheet] = Inr peopleInitialState
   \<and> buildState failingStorage [peopleSheet, petsSheet]
        \<lparr>pc_enabled = True, pc_customKey = None\<rparr> = Inr peopleInitialState
   \<and> buildState emptyStorage [peopleSheet, petsSheet]
        \<lparr>pc_enabled = False, pc_customKey = Some ''import''\<rparr> = Inr peopleInitialState"
proof -
  have init: "buildInitialState [peopleSheet, petsSheet] = Inr peopleInitialState"
    by (simp add: buildInitialState_def peopleInitialState_def peopleSheet_def petsSheet_def)
  from buildInitialState_well_defined
         [of peopleSheet "[petsSheet]" "\<lparr>pc_enabled = True, pc_customKey = None\<rparr>" failingStorage]
    init
  have a: "buildState failingStorage [peopleSheet, petsSheet]
        \<lparr>pc_enabled = True, pc_customKey = None\<rparr> = Inr peopleInitialState"
    by (simp add: failingStorage_def)
  from buildInitialState_well_defined
         [of peopleSheet "[petsSheet]" "\<lparr>pc_enabled = False, pc_customKey = Some ''import''\<rparr>"
            emptyStorage]
    init
  have b: "buildState emptyStorage [peopleSheet, petsSheet]
        \<lparr>pc_enabled = False, pc_customKey = Some ''import''\<rparr> = Inr peopleInitialState"
    by simp
  from init a b show ?thesis by simp
qed

section \<open>The state builder\<close>

text \<open>
  C4. \<open>getState\<close> folds the build steps through the reducer from the initial state. It
  then runs incremental validation exactly when the folded state has a dirty-row map with
  at least one non-empty per-sheet set, and full validation otherwise. When the chosen run
  resolves, its errors become the errors of the returned state; when it rejects, the
  returned state is the folded state, with the errors it already had. No other field is
  touched.
\<close>

theorem getState_chooses_validation:
  "(let state = foldl reduce initial steps;
        incremental = (\<exists>rows. dirtyRows state = Some rows \<and> (\<exists>entry \<in> set rows. snd entry \<noteq> []));
        chosen = (case dirtyRows state of
                    Some rows \<Rightarrow>
                      if incremental then
                        applyValidationsToSpecificRows ord d sheets (sheetData state)
                          (validationErrors state) rows
                      else applyValidations ord d sheets (sheetData state)
                  | None \<Rightarrow> applyValidations ord d sheets (sheetData state))
    in (incremental \<longleftrightarrow> hasDirtyRows state)
       \<and> getState ord d reduce sheets initial steps
          = (case chosen of
               Rejected \<Rightarrow> state
             | Resolved errors \<Rightarrow> state\<lparr>validationErrors := errors\<rparr>))"
proof -
  let ?state = "foldl reduce initial steps"
  have dirty: "hasDirtyRows ?state
      \<longleftrightarrow> (\<exists>rows. dirtyRows ?state = Some rows \<and> (\<exists>entry \<in> set rows. snd entry \<noteq> []))"
    by (auto simp: hasDirtyRows_def list_ex_iff split: option.splits)
  show ?thesis
  proof (cases "dirtyRows ?state")
    case None
    then show ?thesis
      by (simp add: getState_def hasDirtyRows_def Let_def split: promise.splits)
  next
    case (Some rows)
    show ?thesis
    proof (cases "\<exists>entry \<in> set rows. snd entry \<noteq> []")
      case True
      with Some dirty have "hasDirtyRows ?state" by simp
      with Some True show ?thesis
        by (simp add: getState_def Let_def split: promise.splits)
    next
      case False
      with Some dirty have "\<not> hasDirtyRows ?state" by simp
      with Some False show ?thesis
        by (simp add: getState_def Let_def split: promise.splits)
    qed
  qed
qed

lemmas state_simps = editedState_def peopleInitialState_def bobEdit_def specReducer_def markDirty_def

theorem getState_chooses_validation_witness:
  "hasDirtyRows (foldl specReducer editedState [bobEdit])
   \<and> validationErrors (getState id specDeps specReducer [peopleSheet] editedState [bobEdit])
       = [staleError, bobAgeError]
   \<and> getState id failingDeps specReducer [peopleSheet] editedState [bobEdit]
       = foldl specReducer editedState [bobEdit]
   \<and> \<not> hasDirtyRows (foldl specReducer editedState [])
   \<and> validationErrors (getState id specDeps specReducer [peopleSheet] editedState [])
       = [bobAgeError, annStatusError]
   \<and> validationErrors (getState id failingDeps specReducer [peopleSheet] editedState [])
       = [staleError]"
proof -
  let ?edited = "foldl specReducer editedState [bobEdit]"
  have dirty: "dirtyRows ?edited = Some [(''people'', [1])]"
    and data: "sheetData ?edited = [peopleState]"
    and errs: "validationErrors ?edited = [staleError]"
    by (simp_all add: state_simps peopleState_def peopleRows_def)
  have clean: "dirtyRows (foldl specReducer editedState []) = None"
    "sheetData (foldl specReducer editedState []) = [peopleState]"
    "validationErrors (foldl specReducer editedState []) = [staleError]"
    by (simp_all add: state_simps)
  have inc: "applyValidationsToSpecificRows id specDeps [peopleSheet] [peopleState] [staleError]
      [(''people'', [1])] = Resolved [staleError, bobAgeError]"
    by (simp add: applyValidationsToSpecificRows_def dirtyRowKeys_member example_simps)
  have incFails: "applyValidationsToSpecificRows id failingDeps [peopleSheet] [peopleState]
      [staleError] [(''people'', [1])] = Rejected"
    by (simp add: applyValidationsToSpecificRows_def example_simps failingDeps_def)
  have full: "applyValidations id specDeps [peopleSheet] [peopleState]
      = Resolved [bobAgeError, annStatusError]"
    by (simp add: example_simps)
  have fullFails: "applyValidations id failingDeps [peopleSheet] [peopleState] = Rejected"
    by (simp add: example_simps failingDeps_def)
  from getState_chooses_validation [of specReducer editedState "[bobEdit]" id specDeps "[peopleSheet]"]
    dirty data errs inc
  have a: "hasDirtyRows ?edited"
    "validationErrors (getState id specDeps specReducer [peopleSheet] editedState [bobEdit])
       = [staleError, bobAgeError]"
    by (simp_all add: Let_def)
  from getState_chooses_validation [of specReducer editedState "[bobEdit]" id failingDeps "[peopleSheet]"]
    dirty data errs incFails
  have b: "getState id failingDeps specReducer [peopleSheet] editedState [bobEdit] = ?edited"
    by (simp add: Let_def)
  from getState_chooses_validation [of specReducer editedState "[]" id specDeps "[peopleSheet]"]
    clean full
  have c: "\<not> hasDirtyRows (foldl specReducer editedState [])"
    "validationErrors (getState id specDeps specReducer [peopleSheet] editedState [])
       = [bobAgeError, annStatusError]"
    by (simp_all add: Let_def)
  from getState_chooses_validation [of specReducer editedState "[]" id failingDeps "[peopleSheet]"]
    clean fullFails
  have d: "validationErrors (getState id failingDeps specReducer [peopleSheet] editedState [])
       = [staleError]"
    by (simp add: Let_def)
  from a b c d show ?thesis by simp
qed

section \<open>The interactive state builder\<close>


















lemma runIdsOf_append: "runIdsOf (xs @ ys) = runIdsOf xs @ runIdsOf ys"
  by (simp add: runIdsOf_def)






















end
